theory Spec2Isabelle
  imports Main
begin

section \<open>JavaScript string primitives used by bmxdocs.ts\<close>

text \<open>
  Strings are lists of code units, and a \<open>char\<close> is a code unit from 0 to 255: the
  catalog text is taken to be in the Latin-1 range, where a character is one code
  unit. Within it \<open>toLowerCase\<close> and \<open>trim\<close> are those of the language: the capital
  letters are \<open>A\<close> to \<open>Z\<close> and the code units 192 to 222 but 215, each 32 below its small
  letter, and white space is tab, line feed, vertical tab, form feed, carriage
  return, space and the no-break space 160. Indices are \<open>int\<close>, as \<open>indexOf\<close> answers
  \<open>-1\<close> and \<open>slice\<close> is called with negative ends.
\<close>

datatype error = TypeError

text \<open>\<open>s.indexOf(sub)\<close>: the first position where \<open>sub\<close> starts, or \<open>-1\<close>.\<close>

fun indexOf :: "string \<Rightarrow> string \<Rightarrow> int" where
  "indexOf [] sub = (if sub = [] then 0 else - 1)"
| "indexOf (c # cs) sub =
     (if take (length sub) (c # cs) = sub then 0
      else (let r = indexOf cs sub in if r < 0 then - 1 else r + 1))"

definition includesStr :: "string \<Rightarrow> string \<Rightarrow> bool" where
  "includesStr s sub = (indexOf s sub \<noteq> - 1)"

text \<open>\<open>s.substr(start)\<close> with no length: from \<open>start\<close> (counted from the end when
  negative) to the end of the string.\<close>

definition substr :: "string \<Rightarrow> int \<Rightarrow> string" where
  "substr s start =
     (let n = int (length s);
          b = (if start < 0 then max (n + start) 0 else min start n)
      in drop (nat b) s)"

text \<open>\<open>s.slice(start, end)\<close>: negative arguments count from the end; an end at or
  before the start gives the empty string.\<close>

definition slice :: "string \<Rightarrow> int \<Rightarrow> int \<Rightarrow> string" where
  "slice s start stop =
     (let n = int (length s);
          b = (if start < 0 then max (n + start) 0 else min start n);
          e = (if stop < 0 then max (n + stop) 0 else min stop n)
      in take (nat (e - b)) (drop (nat b) s))"

text \<open>\<open>s.split(sep)\<close>: the pieces between the occurrences of \<open>sep\<close>, found from left to
  right without overlap; the empty separator splits into single characters.\<close>

function splitAt :: "string \<Rightarrow> string \<Rightarrow> string \<Rightarrow> string list" where
  "splitAt sep acc [] = [acc]"
| "splitAt sep acc (c # cs) =
     (if sep \<noteq> [] \<and> take (length sep) (c # cs) = sep
      then acc # splitAt sep [] (drop (length sep) (c # cs))
      else splitAt sep (acc @ [c]) cs)"
  by pat_completeness auto
termination
  by (relation "measure (\<lambda>(sep, acc, s). length s)") auto

definition split :: "string \<Rightarrow> string \<Rightarrow> string list" where
  "split s sep = (if sep = [] then map (\<lambda>c. [c]) s else splitAt sep [] s)"

text \<open>Reading \<open>xs[i]\<close>: \<open>None\<close> stands for \<open>undefined\<close>.\<close>

definition at :: "'a list \<Rightarrow> nat \<Rightarrow> 'a option" where
  "at xs i = (if i < length xs then Some (xs ! i) else None)"

text \<open>\<open>x + '/'\<close> for a possibly undefined \<open>x\<close>: string concatenation writes
  \<open>undefined\<close> out.\<close>

definition str :: "string option \<Rightarrow> string" where
  "str x = (case x of None \<Rightarrow> ''undefined'' | Some s \<Rightarrow> s)"

definition lowerChar :: "char \<Rightarrow> char" where
  "lowerChar c =
     (let n = (of_char c :: nat)
      in if (65 \<le> n \<and> n \<le> 90) \<or> (192 \<le> n \<and> n \<le> 222 \<and> n \<noteq> 215)
         then char_of (n + 32) else c)"

definition toLowerCase :: "string \<Rightarrow> string" where
  "toLowerCase s = map lowerChar s"

text \<open>White space as \<open>trim\<close> sees it: tab, line feed, vertical tab, form feed,
  carriage return, space and no-break space.\<close>

definition isWhiteSpace :: "char \<Rightarrow> bool" where
  "isWhiteSpace c =
     (let n = (of_char c :: nat) in (9 \<le> n \<and> n \<le> 13) \<or> n = 32 \<or> n = 160)"

definition trim :: "string \<Rightarrow> string" where
  "trim s = rev (dropWhile isWhiteSpace (rev (dropWhile isWhiteSpace s)))"

text \<open>A string is truthy when it is defined and not empty.\<close>

definition truthy :: "string option \<Rightarrow> bool" where
  "truthy x = (case x of None \<Rightarrow> False | Some s \<Rightarrow> s \<noteq> [])"

section \<open>The data model\<close>

record BmxCommandParam =
  name :: string
  type :: string
  default :: string

text \<open>The three \<open>vscode\<close> objects of a command (\<open>markdownString\<close>,
  \<open>shortMarkdownString\<close>, \<open>insertText\<close>) are built by the editor's API; of these only
  the presence of \<open>markdownString\<close> is read by the index, so it is kept as a flag and
  the other two are left out.\<close>

record BmxCommand =
  realName :: string
  searchName :: string
  description :: "string option"
  markdownString :: bool
  isFunction :: bool
  returns :: "string option"
  params :: "BmxCommandParam list option"
  paramsRaw :: "string option"
  paramsPretty :: "string option"
  url :: "string option"
  urlLocation :: "string option"
  module :: "string option"

section \<open>parseCommandParams\<close>

datatype parsePart = Name | Type | Default

text \<open>The local variables of the loop; \<open>params_of\<close> is \<open>cmd.params\<close>.\<close>

record parseState =
  params_of :: "BmxCommandParam list"
  createNewParam :: bool
  parse :: parsePart
  inString :: bool

text \<open>The \<open>switch\<close> of the loop body, on the parameter \<open>param\<close> being filled: it
  gives the parameter as mutated and the new values of \<open>createNewParam\<close>, \<open>parse\<close> and
  \<open>inString\<close>.\<close>

fun switchParse ::
  "parsePart \<Rightarrow> bool \<Rightarrow> char \<Rightarrow> BmxCommandParam \<Rightarrow> BmxCommandParam \<times> bool \<times> parsePart \<times> bool"
where
  "switchParse Name inStr chr param =
     (if chr = CHR '':'' then (param\<lparr>type := ''''\<rparr>, False, Type, inStr)
      else if chr = CHR ''='' then (param, False, Default, inStr)
      else if chr = CHR '','' then (param, True, Name, inStr)
      else if chr = CHR ''%'' then (param\<lparr>type := ''Int''\<rparr>, False, Type, inStr)
      else if chr = CHR ''#'' then (param\<lparr>type := ''Float''\<rparr>, False, Type, inStr)
      else if chr = CHR ''!'' then (param\<lparr>type := ''Double''\<rparr>, False, Type, inStr)
      else if chr = CHR ''$'' then (param\<lparr>type := ''String''\<rparr>, False, Type, inStr)
      else if chr \<noteq> CHR '' '' then (param\<lparr>name := name param @ [chr]\<rparr>, False, Name, inStr)
      else (param, False, Name, inStr))"
| "switchParse Type inStr chr param =
     (if chr = CHR '','' then (param, True, Name, inStr)
      else if chr = CHR ''='' then (param, False, Default, inStr)
      else if chr \<noteq> CHR '' '' then (param\<lparr>type := type param @ [chr]\<rparr>, False, Type, inStr)
      else (param, False, Type, inStr))"
| "switchParse Default inStr chr param =
     (let (param', new, part) =
        (if inStr then (param\<lparr>default := default param @ [chr]\<rparr>, False, Default)
         else if chr = CHR '','' then (param, True, Name)
         else if chr \<noteq> CHR '' '' then (param\<lparr>default := default param @ [chr]\<rparr>, False, Default)
         else (param, False, Default))
      in (param', new, part, if chr = CHR 0x22 then \<not> inStr else inStr))"

text \<open>One round of the loop, with \<open>param\<close> the last element of \<open>cmd.params\<close>.\<close>

definition loopRound :: "parseState \<Rightarrow> char \<Rightarrow> parseState" where
  "loopRound st chr =
     (let ps = (if createNewParam st
                then params_of st @ [\<lparr>name = '''', type = ''Int'', default = ''''\<rparr>]
                else params_of st);
          (param', new, part, inStr) = switchParse (parse st) (inString st) chr (last ps)
      in \<lparr>params_of = butlast ps @ [param'], createNewParam = new,
          parse = part, inString = inStr\<rparr>)"

text \<open>Were the array empty with no parameter to create, \<open>param\<close> would be
  \<open>undefined\<close> and the round would throw.\<close>

definition loopBody :: "parseState \<Rightarrow> char \<Rightarrow> error + parseState" where
  "loopBody st chr =
     (if \<not> createNewParam st \<and> params_of st = [] then Inl TypeError
      else Inr (loopRound st chr))"

fun forLoop :: "parseState \<Rightarrow> string \<Rightarrow> error + parseState" where
  "forLoop st [] = Inr st"
| "forLoop st (chr # rest) =
     (case loopBody st chr of Inl e \<Rightarrow> Inl e | Inr st' \<Rightarrow> forLoop st' rest)"

text \<open>The rendering loop at the end of \<open>parseCommandParams\<close>.\<close>

definition prettyParam :: "BmxCommandParam \<Rightarrow> string" where
  "prettyParam param =
     name param @ '':'' @ type param @
     (if length (default param) > 0 then '' = '' @ default param else '''')"

fun pretty :: "BmxCommandParam list \<Rightarrow> string" where
  "pretty [] = ''''"
| "pretty [param] = prettyParam param"
| "pretty (param # rest) = prettyParam param @ '', '' @ pretty rest"

text \<open>The variables as the loop starts.\<close>

definition startState :: parseState where
  "startState = \<lparr>params_of = [], createNewParam = True, parse = Name, inString = False\<rparr>"

definition parseCommandParams :: "BmxCommand \<Rightarrow> error + BmxCommand" where
  "parseCommandParams cmd =
     (case paramsRaw cmd of
        None \<Rightarrow> Inr cmd
      | Some raw0 \<Rightarrow>
          if raw0 = [] then Inr cmd
          else (let raw = trim raw0; cmd1 = cmd\<lparr>paramsRaw := Some raw\<rparr>
                in if raw = [] then Inr cmd1
                   else (case forLoop startState raw of
                           Inl e \<Rightarrow> Inl e
                         | Inr st \<Rightarrow> Inr (cmd1\<lparr>params := Some (params_of st),
                                                paramsPretty := Some (pretty (params_of st))\<rparr>))))"

section \<open>addCommand\<close>

definition newCommand :: BmxCommand where
  "newCommand =
     \<lparr>realName = ''No Name'', searchName = ''no name'', description = None,
      markdownString = False, isFunction = False, returns = None, params = None,
      paramsRaw = None, paramsPretty = None, url = None, urlLocation = None, module = None\<rparr>"

text \<open>Figure out URL.\<close>

definition figureUrl :: "string \<Rightarrow> BmxCommand \<Rightarrow> BmxCommand" where
  "figureUrl rightSide command =
     (if includesStr rightSide ''#''
      then (let loc = substr rightSide (indexOf rightSide ''#'')
            in command\<lparr>urlLocation := Some loc,
                        url := Some (slice rightSide 0 (- int (length loc)))\<rparr>)
      else command\<lparr>url := Some rightSide\<rparr>)"

text \<open>Track down module. \<open>pathSplits[1].toLowerCase()\<close> throws when \<open>pathSplits\<close> has
  one element only; \<open>pathSplits[4] + '/' + pathSplits[5]\<close> does not throw.\<close>

definition trackModule :: "BmxCommand \<Rightarrow> error + BmxCommand" where
  "trackModule command =
     (case url command of
        None \<Rightarrow> Inr command
      | Some u \<Rightarrow>
          if u = [] then Inr command
          else (let pathSplits = split u ''/''
                in case at pathSplits 1 of
                     None \<Rightarrow> Inl TypeError
                   | Some seg \<Rightarrow>
                       if toLowerCase seg = ''docs''
                       then Inr (command\<lparr>module :=
                              Some (str (at pathSplits 4) @ ''/'' @ str (at pathSplits 5))\<rparr>)
                       else if toLowerCase seg = ''mod''
                       then Inr (command\<lparr>module :=
                              Some (str (at pathSplits 2) @ ''/'' @ str (at pathSplits 3))\<rparr>)
                       else Inr command))"

text \<open>Take care of the description. The stages from here on work on the command and on
  what is left of \<open>leftSide\<close>.\<close>

fun takeDescription :: "BmxCommand \<times> string \<Rightarrow> error + BmxCommand \<times> string" where
  "takeDescription (command, leftSide) =
     (if includesStr leftSide '' : ''
      then (case at (split leftSide '' : '') 1 of
              None \<Rightarrow> Inl TypeError
            | Some d \<Rightarrow> Inr (command\<lparr>description := Some d\<rparr>,
                             slice leftSide 0 (- int (length d) - 3)))
      else Inr (command, leftSide))"

text \<open>Figure out if this is a function.\<close>

fun figureFunction :: "BmxCommand \<times> string \<Rightarrow> error + BmxCommand \<times> string" where
  "figureFunction (command, leftSide) =
     (if includesStr leftSide ''(''
      then (let raw = slice (substr leftSide (indexOf leftSide ''('' + 1)) 0 (- 1);
                leftSide1 = slice leftSide 0 (- int (length raw) - 2)
            in case parseCommandParams (command\<lparr>paramsRaw := Some raw\<rparr>) of
                 Inl e \<Rightarrow> Inl e
               | Inr command1 \<Rightarrow> Inr (command1\<lparr>isFunction := True\<rparr>, leftSide1))
      else Inr (command, leftSide))"

text \<open>Returns?\<close>

fun takeReturns :: "BmxCommand \<times> string \<Rightarrow> BmxCommand \<times> string" where
  "takeReturns (command, leftSide) =
     (if includesStr leftSide '':''
      then (let r = substr leftSide (indexOf leftSide '':'' + 1)
            in (command\<lparr>returns := Some r\<rparr>, slice leftSide 0 (- int (length r) - 1)))
      else (command, leftSide))"

text \<open>And we should be left with the command name.\<close>

fun takeName :: "BmxCommand \<times> string \<Rightarrow> BmxCommand" where
  "takeName (command, leftSide) =
     (let command1 = command\<lparr>realName := leftSide\<rparr>
      in command1\<lparr>searchName := toLowerCase (realName command1)\<rparr>)"

text \<open>The markdown objects exist when there is a description or a rendered parameter
  list.\<close>

definition makeMarkdown :: "BmxCommand \<Rightarrow> BmxCommand" where
  "makeMarkdown command =
     (if truthy (description command) \<or> truthy (paramsPretty command)
      then command\<lparr>markdownString := True\<rparr> else command)"

text \<open>The body of \<open>lines.forEach\<close> for a line that is not empty: the command it pushes,
  or the exception it throws.\<close>

definition parseLine :: "string \<Rightarrow> error + BmxCommand" where
  "parseLine line =
     (let lineSplit = split line ''|'';
          leftSide = hd lineSplit;
          rightSide = last lineSplit
      in case trackModule (figureUrl rightSide newCommand) of
           Inl e \<Rightarrow> Inl e
         | Inr command1 \<Rightarrow>
             (case takeDescription (command1, leftSide) of
                Inl e \<Rightarrow> Inl e
              | Inr s2 \<Rightarrow>
                  (case figureFunction s2 of
                     Inl e \<Rightarrow> Inl e
                   | Inr s3 \<Rightarrow> Inr (makeMarkdown (takeName (takeReturns s3))))))"

text \<open>\<open>lines.forEach\<close> over the index \<open>_commandsList\<close>: an exception ends the loop and
  leaves the index as it was when thrown.\<close>

fun forEach :: "string list \<Rightarrow> BmxCommand list \<Rightarrow> error option \<times> BmxCommand list" where
  "forEach [] commandsList = (None, commandsList)"
| "forEach (line # rest) commandsList =
     (if line \<noteq> []
      then (case parseLine line of
              Inl e \<Rightarrow> (Some e, commandsList)
            | Inr command \<Rightarrow> forEach rest (commandsList @ [command]))
      else forEach rest commandsList)"

definition addCommand ::
  "string \<Rightarrow> string \<Rightarrow> BmxCommand list \<Rightarrow> error option \<times> BmxCommand list" where
  "addCommand EOL data commandsList = forEach (split data EOL) commandsList"

section \<open>The index: cacheCommands, cacheCommandsIfEmpty, getCommand\<close>

text \<open>
  The index \<open>_commandsList\<close> is \<open>None\<close> while undefined. \<open>EOL\<close> is the platform's line
  terminator and \<open>file\<close> what \<open>readFileSync\<close> gives for \<open>commands.txt\<close>, \<open>None\<close> when it
  throws. The \<open>try\<close> block catches what \<open>addCommand\<close> throws as well. The warning popup
  changes nothing in the index and is left out. Each function returns its value and
  the index.
\<close>

definition cacheCommands ::
  "string \<Rightarrow> string option \<Rightarrow> bool \<Rightarrow> BmxCommand list option \<Rightarrow> bool \<times> BmxCommand list option"
where
  "cacheCommands EOL file showPopup commandsList =
     (let commandsList1 =
            (case file of
               None \<Rightarrow> commandsList
             | Some data \<Rightarrow> Some (snd (addCommand EOL data [])))
      in ((case commandsList1 of None \<Rightarrow> False | Some l \<Rightarrow> int (length l) \<ge> 0),
          commandsList1))"

definition cacheCommandsIfEmpty ::
  "string \<Rightarrow> string option \<Rightarrow> bool \<Rightarrow> BmxCommand list option \<Rightarrow> bool \<times> BmxCommand list option"
where
  "cacheCommandsIfEmpty EOL file showPopup commandsList =
     (let commandsList1 =
            (if (case commandsList of None \<Rightarrow> True | Some l \<Rightarrow> int (length l) \<le> 0)
             then snd (cacheCommands EOL file showPopup commandsList)
             else commandsList)
      in ((case commandsList1 of None \<Rightarrow> False | Some l \<Rightarrow> int (length l) \<ge> 0),
          commandsList1))"

record GetCommandFilter =
  hasDescription :: "bool option"
  hasMarkdown :: "bool option"
  hasParameters :: "bool option"

text \<open>An optional flag counts when it is present and true.\<close>

definition flag :: "bool option \<Rightarrow> bool" where
  "flag x = (x = Some True)"

text \<open>The three \<open>continue\<close> statements: whether the filter drops the command.\<close>

definition filteredOut :: "GetCommandFilter option \<Rightarrow> BmxCommand \<Rightarrow> bool" where
  "filteredOut filter' cmd =
     (case filter' of
        None \<Rightarrow> False
      | Some f \<Rightarrow>
          (flag (hasDescription f) \<and> \<not> truthy (description cmd))
          \<or> (flag (hasMarkdown f) \<and> \<not> markdownString cmd)
          \<or> (flag (hasParameters f)
              \<and> (case params cmd of None \<Rightarrow> True | Some ps \<Rightarrow> int (length ps) \<le> 0)))"

fun matchLoop ::
  "string option \<Rightarrow> GetCommandFilter option \<Rightarrow> BmxCommand list \<Rightarrow> BmxCommand list" where
  "matchLoop command filter' [] = []"
| "matchLoop command filter' (cmd # rest) =
     (if (\<not> truthy command \<or> (truthy command \<and> Some (searchName cmd) = command))
         \<and> \<not> filteredOut filter' cmd
      then cmd # matchLoop command filter' rest
      else matchLoop command filter' rest)"

definition getCommand ::
  "string \<Rightarrow> string option \<Rightarrow> string option \<Rightarrow> GetCommandFilter option \<Rightarrow>
   BmxCommand list option \<Rightarrow> BmxCommand list \<times> BmxCommand list option"
where
  "getCommand EOL file command filter' commandsList =
     (let commandsList1 = snd (cacheCommandsIfEmpty EOL file False commandsList)
      in case commandsList1 of
           None \<Rightarrow> ([], commandsList1)
         | Some l \<Rightarrow>
             (matchLoop (if truthy command then map_option toLowerCase command else command)
                filter' l,
              commandsList1))"

section \<open>Reference readings used in the comparisons\<close>

text \<open>The parameter text as the specification words it: from just after the first
  \<open>(\<close> up to the character before the final \<open>)\<close>. It is compared below with what
  \<open>figureFunction\<close> extracts.\<close>

definition spec_paramsRaw :: "string \<Rightarrow> string" where
  "spec_paramsRaw leftSide =
     rev (tl (dropWhile (\<lambda>x. x \<noteq> CHR '')'')
       (rev (tl (dropWhile (\<lambda>x. x \<noteq> CHR ''('') leftSide)))))"

text \<open>The catalog line of the specification's sine example, as it is written there
  (blanks around the pipes), and the same line without those blanks.\<close>

definition sinLine :: string where
  "sinLine = ''Sin#(angle#) : Returns sine of angle | ... | /mod/math.mod/math.bmx/Sin''"

definition sinLineTight :: string where
  "sinLineTight = ''Sin#(angle#) : Returns sine of angle|...|/mod/math.mod/math.bmx/Sin''"

text \<open>A line with a quoted comma in a default and uneven blanks in its parameter list,
  and a line whose only parameter has a type that ends with a tab.\<close>

definition quotedLine :: string where
  "quotedLine = ''Foo( a:Int,b$ = '' @ [CHR 0x22] @ ''hi, there'' @ [CHR 0x22] @ '' )|/mod/a/b''"

definition tabLine :: string where
  "tabLine = ''F(a:b'' @ [CHR 0x09] @ ''=)|/mod/a/b''"

text \<open>A line whose only parameter has a type that ends with a no-break space.\<close>

definition noBreakLine :: string where
  "noBreakLine = ''F(a:b'' @ [CHR 0xA0] @ ''=)|/mod/a/b''"

section \<open>Shapes of parsed parameters\<close>

text \<open>
  What the loop can put into a parameter. A name holds none of the characters the
  switch acts on in name mode; a type holds no comma, equals sign or blank; a default
  holds a comma or a blank only inside a string, where a string runs from one double
  quote to the next. \<open>inStringAfter b d\<close> is \<open>inString\<close> after the characters \<open>d\<close> of a
  default, read from \<open>inString = b\<close>.
\<close>

definition nameChar :: "char \<Rightarrow> bool" where
  "nameChar c = (c \<notin> set '':=,%#!$ '')"

definition typeChar :: "char \<Rightarrow> bool" where
  "typeChar c = (c \<notin> set '',= '')"

fun inStringAfter :: "bool \<Rightarrow> string \<Rightarrow> bool" where
  "inStringAfter b [] = b"
| "inStringAfter b (c # cs) = inStringAfter (if c = CHR 0x22 then \<not> b else b) cs"

fun defaultOk :: "bool \<Rightarrow> string \<Rightarrow> bool" where
  "defaultOk b [] = True"
| "defaultOk b (c # cs) =
     ((b \<or> (c \<noteq> CHR '','' \<and> c \<noteq> CHR '' ''))
      \<and> defaultOk (if c = CHR 0x22 then \<not> b else b) cs)"

definition paramOk :: "BmxCommandParam \<Rightarrow> bool" where
  "paramOk p =
     (list_all nameChar (name p) \<and> list_all typeChar (type p) \<and> defaultOk False (default p))"

text \<open>A parameter whose default leaves no string open.\<close>

definition closedParam :: "BmxCommandParam \<Rightarrow> bool" where
  "closedParam p = (\<not> inStringAfter False (default p))"

text \<open>How mode and \<open>inString\<close> fit the parameter being filled.\<close>

definition fits :: "parsePart \<Rightarrow> bool \<Rightarrow> BmxCommandParam \<Rightarrow> bool" where
  "fits part inStr p =
     (if part = Default then inStr = inStringAfter False (default p)
      else \<not> inStr \<and> default p = [])"

text \<open>The invariant of the loop: every parameter is well shaped, every finished one is
  closed, and between two parameters the loop is in name mode outside any string.\<close>

definition stateOk :: "parseState \<Rightarrow> bool" where
  "stateOk st =
     (list_all paramOk (params_of st)
      \<and> (if createNewParam st
          then parse st = Name \<and> \<not> inString st \<and> list_all closedParam (params_of st)
          else params_of st \<noteq> []
               \<and> list_all closedParam (butlast (params_of st))
               \<and> fits (parse st) (inString st) (last (params_of st))))"

text \<open>A parameter list as the loop leaves it.\<close>

definition paramsOk :: "BmxCommandParam list \<Rightarrow> bool" where
  "paramsOk ps = (ps \<noteq> [] \<and> list_all paramOk ps \<and> list_all closedParam (butlast ps))"

text \<open>The first parameter's name does not start with white space: it is empty, with
  the loop past the point where it could still grow, or it starts otherwise.\<close>

definition headOk :: "parseState \<Rightarrow> bool" where
  "headOk st =
     (case params_of st of
        [] \<Rightarrow> False
      | p # rest \<Rightarrow>
          (case name p of
             [] \<Rightarrow> rest \<noteq> [] \<or> createNewParam st \<or> parse st \<noteq> Name
           | c # cs \<Rightarrow> \<not> isWhiteSpace c))"

text \<open>The same text but for white space at its end.\<close>

definition sameButTrailingSpace :: "string \<Rightarrow> string \<Rightarrow> bool" where
  "sameButTrailingSpace a b =
     (rev (dropWhile isWhiteSpace (rev a)) = rev (dropWhile isWhiteSpace (rev b)))"

section \<open>Facts about the string primitives and the loop\<close>

lemma indexOf_char:
  "indexOf s [c] = (if c \<in> set s then int (length (takeWhile (\<lambda>x. x \<noteq> c) s)) else - 1)"
  by (induction s) (auto simp: Let_def)

lemma includesStr_char: "includesStr s [c] = (c \<in> set s)"
  by (simp add: includesStr_def indexOf_char)

lemma slice_0_neg: "0 < k \<Longrightarrow> slice s 0 (- int k) = take (length s - k) s"
  by (auto simp: slice_def Let_def max_def nat_diff_distrib')

lemma substr_nat: "substr s (int i) = drop i s"
  by (auto simp: substr_def Let_def min_def)

lemma splitAt_nonempty: "splitAt sep acc s \<noteq> []"
  by (induction sep acc s rule: splitAt.induct) auto

lemma split_nonempty: "sep \<noteq> [] \<Longrightarrow> split s sep \<noteq> []"
  by (simp add: split_def splitAt_nonempty)

lemma loopRound_nonempty: "params_of (loopRound st chr) \<noteq> []"
  by (simp add: loopRound_def Let_def split: prod.splits)

lemma forLoop_foldl:
  "createNewParam st \<or> params_of st \<noteq> [] \<Longrightarrow> forLoop st s = Inr (foldl loopRound st s)"
proof (induction s arbitrary: st)
  case Nil
  then show ?case by simp
next
  case (Cons chr rest)
  have "loopBody st chr = Inr (loopRound st chr)"
    using Cons.prems by (auto simp: loopBody_def)
  moreover have "forLoop (loopRound st chr) rest = Inr (foldl loopRound (loopRound st chr) rest)"
    by (rule Cons.IH) (simp add: loopRound_nonempty)
  ultimately show ?case by simp
qed

lemma forLoop_start: "forLoop startState s = Inr (foldl loopRound startState s)"
  by (rule forLoop_foldl) (simp add: startState_def)

lemma parseCommandParams_eq:
  "parseCommandParams cmd =
     Inr (case paramsRaw cmd of
            None \<Rightarrow> cmd
          | Some raw0 \<Rightarrow>
              if raw0 = [] then cmd
              else if trim raw0 = [] then cmd\<lparr>paramsRaw := Some []\<rparr>
              else cmd\<lparr>paramsRaw := Some (trim raw0),
                       params := Some (params_of (foldl loopRound startState (trim raw0))),
                       paramsPretty := Some (pretty (params_of (foldl loopRound startState (trim raw0))))\<rparr>)"
  by (simp add: parseCommandParams_def Let_def forLoop_start split: option.splits)

lemma slice_0_neg2: "0 < m \<Longrightarrow> slice s 0 (- int k - int m) = take (length s - (k + m)) s"
  using slice_0_neg[of "k + m" s] by simp

lemma takeDescription_take:
  "takeDescription (c, l) = Inr (c', l') \<Longrightarrow> l' = take (length l') l"
  using slice_0_neg2[of 3 l]
  by (auto split: if_splits option.splits)

lemma figureFunction_take:
  "figureFunction (c, l) = Inr (c', l') \<Longrightarrow> l' = take (length l') l"
  using slice_0_neg2[of 2 l]
  by (auto simp: Let_def split: if_splits sum.splits)

lemma takeReturns_take:
  "takeReturns (c, l) = (c', l') \<Longrightarrow> l' = take (length l') l"
  using slice_0_neg2[of 1 l]
  by (auto simp: Let_def split: if_splits)

lemma take_take_prefix: "b = take (length b) a \<Longrightarrow> c = take (length c) b \<Longrightarrow> c = take (length c) a"
  by (metis length_take min.cobounded1 take_take min.absorb1 min.commute)

lemma makeMarkdown_names [simp]:
  "realName (makeMarkdown c) = realName c" "searchName (makeMarkdown c) = searchName c"
  by (simp_all add: makeMarkdown_def)

lemma takeName_names [simp]:
  "realName (takeName (c, l)) = l" "searchName (takeName (c, l)) = toLowerCase l"
  by (simp_all add: Let_def)

lemma parseLine_stages:
  assumes "parseLine line = Inr c"
  obtains c1 c2 l2 c3 l3 c4 l4 where
    "trackModule (figureUrl (last (split line ''|'')) newCommand) = Inr c1"
    "takeDescription (c1, hd (split line ''|'')) = Inr (c2, l2)"
    "figureFunction (c2, l2) = Inr (c3, l3)"
    "takeReturns (c3, l3) = (c4, l4)"
    "c = makeMarkdown (takeName (c4, l4))"
proof -
  from assms obtain c1 s2 s3 where
    s1: "trackModule (figureUrl (last (split line ''|'')) newCommand) = Inr c1" and
    s2: "takeDescription (c1, hd (split line ''|'')) = Inr s2" and
    s3: "figureFunction s2 = Inr s3" and
    c: "c = makeMarkdown (takeName (takeReturns s3))"
    unfolding parseLine_def Let_def by (auto split: sum.splits)
  show ?thesis
    using that[of c1 "fst s2" "snd s2" "fst s3" "snd s3" "fst (takeReturns s3)" "snd (takeReturns s3)"]
      s1 s2 s3 c by simp
qed

lemma parseLine_names:
  assumes "parseLine line = Inr c"
  shows "searchName c = toLowerCase (realName c)"
    and "realName c = take (length (realName c)) (hd (split line ''|''))"
proof -
  from assms obtain c1 c2 l2 c3 l3 c4 l4 where
    s2: "takeDescription (c1, hd (split line ''|'')) = Inr (c2, l2)" and
    s3: "figureFunction (c2, l2) = Inr (c3, l3)" and
    s4: "takeReturns (c3, l3) = (c4, l4)" and
    c: "c = makeMarkdown (takeName (c4, l4))"
    by (rule parseLine_stages)
  from c show "searchName c = toLowerCase (realName c)" by simp
  have "l4 = take (length l4) (hd (split line ''|''))"
    using takeDescription_take[OF s2] figureFunction_take[OF s3] takeReturns_take[OF s4]
      take_take_prefix by blast
  with c show "realName c = take (length (realName c)) (hd (split line ''|''))" by simp
qed

lemma forEach_set:
  "c \<in> set (snd (forEach ls cl)) \<Longrightarrow>
   c \<in> set cl \<or> (\<exists>line \<in> set ls. line \<noteq> [] \<and> parseLine line = Inr c)"
proof (induction ls arbitrary: cl)
  case Nil
  then show ?case by simp
next
  case (Cons l ls)
  show ?case
  proof (cases "l = []")
    case True
    with Cons show ?thesis by auto
  next
    case False
    show ?thesis
    proof (cases "parseLine l")
      case (Inl e)
      with False Cons.prems show ?thesis by simp
    next
      case (Inr x)
      with False Cons.prems have "c \<in> set (snd (forEach ls (cl @ [x])))" by simp
      from Cons.IH[OF this] Inr False show ?thesis by auto
    qed
  qed
qed

lemma addCommand_set:
  "c \<in> set (snd (addCommand EOL data [])) \<Longrightarrow>
   \<exists>line \<in> set (split data EOL). line \<noteq> [] \<and> parseLine line = Inr c"
  using forEach_set[of c "split data EOL" "[]"] by (simp add: addCommand_def)

lemma indexOf_set: "indexOf s sub \<noteq> - 1 \<Longrightarrow> set sub \<subseteq> set s"
proof (induction s)
  case Nil
  then show ?case by (simp split: if_splits)
next
  case (Cons c cs)
  show ?case
  proof (cases "take (length sub) (c # cs) = sub")
    case True
    then have "set sub = set (take (length sub) (c # cs))" by simp
    then show ?thesis using set_take_subset by fast
  next
    case False
    with Cons.prems have "indexOf cs sub \<noteq> - 1" by (auto simp: Let_def split: if_splits)
    with Cons.IH show ?thesis by auto
  qed
qed

lemma includesStr_set: "includesStr s sub \<Longrightarrow> set sub \<subseteq> set s"
  by (simp add: includesStr_def indexOf_set)

declare takeDescription.simps [simp del] figureFunction.simps [simp del] takeReturns.simps [simp del]

lemma first_paren_decomp:
  assumes "CHR ''('' \<in> set l"
  shows "l = takeWhile (\<lambda>x. x \<noteq> CHR ''('') l @ ''('' @ tl (dropWhile (\<lambda>x. x \<noteq> CHR ''('') l)"
proof -
  from assms have "dropWhile (\<lambda>x. x \<noteq> CHR ''('') l \<noteq> []" by simp
  moreover from this have "hd (dropWhile (\<lambda>x. x \<noteq> CHR ''('') l) = CHR ''(''"
    using hd_dropWhile[of "\<lambda>x. x \<noteq> CHR ''(''" l] by simp
  ultimately have "dropWhile (\<lambda>x. x \<noteq> CHR ''('') l = ''('' @ tl (dropWhile (\<lambda>x. x \<noteq> CHR ''('') l)"
    by (cases "dropWhile (\<lambda>x. x \<noteq> CHR ''('') l") auto
  then show ?thesis
    using takeWhile_dropWhile_id[of "\<lambda>x. x \<noteq> CHR ''(''" l] by simp
qed

lemma takeWhile_upto: "c \<notin> set pre \<Longrightarrow> takeWhile (\<lambda>x. x \<noteq> c) (pre @ c # t) = pre"
  by (induction pre) auto

lemma figureFunction_decomp:
  assumes "CHR ''('' \<notin> set pre" "t \<noteq> []"
  shows "figureFunction (command, pre @ ''('' @ t) =
     (case parseCommandParams (command\<lparr>paramsRaw := Some (butlast t)\<rparr>) of
        Inl e \<Rightarrow> Inl e
      | Inr command1 \<Rightarrow> Inr (command1\<lparr>isFunction := True\<rparr>, pre))"
proof -
  let ?l = "pre @ ''('' @ t"
  have i: "indexOf ?l ''('' = int (length pre)"
    using assms(1) by (simp add: indexOf_char takeWhile_upto)
  have a: "substr ?l (indexOf ?l ''('' + 1) = t"
    using substr_nat[of ?l "length pre + 1"] i by (simp add: add.commute)
  have b: "slice t 0 (- 1) = butlast t"
    using slice_0_neg[of 1 t] by (simp add: butlast_conv_take)
  have c: "slice ?l 0 (- int (length (butlast t)) - 2) = pre"
    using slice_0_neg2[of 2 ?l "length (butlast t)"] assms(2) by simp
  have d: "includesStr ?l ''(''" by (simp add: includesStr_char)
  show ?thesis by (simp only: figureFunction.simps Let_def a b c d if_True)
qed

lemma parseCommandParams_raw:
  "parseCommandParams (command\<lparr>paramsRaw := Some raw\<rparr>) = Inr c \<Longrightarrow>
   paramsRaw c = Some (trim raw) \<and> isFunction c = isFunction command"
  by (auto simp: parseCommandParams_eq trim_def split: if_splits)

lemma all_ws_trim:
  assumes "\<forall>ch\<in>set w. isWhiteSpace ch"
  shows "trim w = []"
proof -
  from assms have dw: "dropWhile isWhiteSpace w = []" by (induction w) auto
  show ?thesis unfolding trim_def dw by simp
qed

lemma trackModule_fields:
  "trackModule c = Inr c' \<Longrightarrow>
   params c' = params c \<and> paramsPretty c' = paramsPretty c \<and> isFunction c' = isFunction c"
  by (auto simp: trackModule_def Let_def split: option.splits if_splits)

lemma figureUrl_fields:
  "params (figureUrl r c) = params c \<and> paramsPretty (figureUrl r c) = paramsPretty c
   \<and> isFunction (figureUrl r c) = isFunction c"
  by (simp add: figureUrl_def Let_def)

lemma takeReturns_fields:
  "takeReturns (c, l) = (c', l') \<Longrightarrow>
   params c' = params c \<and> paramsPretty c' = paramsPretty c \<and> isFunction c' = isFunction c"
  by (auto simp: takeReturns.simps Let_def split: if_splits)

lemma takeName_fields [simp]:
  "params (takeName (c, l)) = params c" "paramsPretty (takeName (c, l)) = paramsPretty c"
  "isFunction (takeName (c, l)) = isFunction c"
  by (simp_all add: Let_def)

lemma makeMarkdown_fields [simp]:
  "params (makeMarkdown c) = params c" "paramsPretty (makeMarkdown c) = paramsPretty c"
  "isFunction (makeMarkdown c) = isFunction c"
  by (simp_all add: makeMarkdown_def)

lemma matchLoop_kept:
  "x \<in> set (matchLoop command filter' l) \<Longrightarrow> x \<in> set l \<and> \<not> filteredOut filter' x"
  by (induction l) (auto split: if_splits)

lemma getCommand_kept:
  "x \<in> set (fst (getCommand EOL file command filter' commandsList)) \<Longrightarrow> \<not> filteredOut filter' x"
  by (auto simp: getCommand_def Let_def split: option.splits dest: matchLoop_kept)

lemma matchLoop_filter:
  "matchLoop command filter' l =
   filter (\<lambda>cmd. (\<not> truthy command \<or> Some (searchName cmd) = command) \<and> \<not> filteredOut filter' cmd) l"
  by (induction l) auto

lemma filteredOut_flags_off:
  "\<not> flag (hasDescription f) \<Longrightarrow> \<not> flag (hasMarkdown f) \<Longrightarrow> \<not> flag (hasParameters f) \<Longrightarrow>
   filteredOut (Some f) cmd = filteredOut None cmd"
  by (simp add: filteredOut_def)

lemma filteredOut_mono:
  "flag (hasDescription g) \<longrightarrow> flag (hasDescription f) \<Longrightarrow>
   flag (hasMarkdown g) \<longrightarrow> flag (hasMarkdown f) \<Longrightarrow>
   flag (hasParameters g) \<longrightarrow> flag (hasParameters f) \<Longrightarrow>
   filteredOut (Some g) cmd \<Longrightarrow> filteredOut (Some f) cmd"
  by (auto simp: filteredOut_def)

section \<open>Running the loop over a rendered parameter list\<close>

lemma loopRound_cur:
  "loopRound \<lparr>params_of = qs @ [p], createNewParam = False, parse = m, inString = b\<rparr> c =
     (case switchParse m b c p of
        (p', new, part, b') \<Rightarrow>
          \<lparr>params_of = qs @ [p'], createNewParam = new, parse = part, inString = b'\<rparr>)"
  by (simp add: loopRound_def Let_def)

lemma loopRound_new:
  "loopRound \<lparr>params_of = qs, createNewParam = True, parse = m, inString = b\<rparr> c =
   loopRound \<lparr>params_of = qs @ [\<lparr>name = '''', type = ''Int'', default = ''''\<rparr>],
              createNewParam = False, parse = m, inString = b\<rparr> c"
  by (simp add: loopRound_def Let_def)

lemma foldl_new:
  "s \<noteq> [] \<Longrightarrow>
   foldl loopRound \<lparr>params_of = qs, createNewParam = True, parse = m, inString = b\<rparr> s =
   foldl loopRound \<lparr>params_of = qs @ [\<lparr>name = '''', type = ''Int'', default = ''''\<rparr>],
              createNewParam = False, parse = m, inString = b\<rparr> s"
  by (cases s) (simp_all add: loopRound_new)

lemma run_name:
  "list_all nameChar n \<Longrightarrow>
   foldl loopRound \<lparr>params_of = qs @ [p], createNewParam = False, parse = Name, inString = b\<rparr> n =
   \<lparr>params_of = qs @ [p\<lparr>name := name p @ n\<rparr>], createNewParam = False, parse = Name, inString = b\<rparr>"
proof (induction n arbitrary: p)
  case Nil
  then show ?case by simp
next
  case (Cons c n)
  from Cons.prems have c: "nameChar c" and n: "list_all nameChar n" by simp_all
  from c have "switchParse Name b c p = (p\<lparr>name := name p @ [c]\<rparr>, False, Name, b)"
    by (simp add: nameChar_def)
  then show ?case using Cons.IH[OF n, of "p\<lparr>name := name p @ [c]\<rparr>"]
    by (simp add: loopRound_cur)
qed

lemma run_type:
  "list_all typeChar t \<Longrightarrow>
   foldl loopRound \<lparr>params_of = qs @ [p], createNewParam = False, parse = Type, inString = b\<rparr> t =
   \<lparr>params_of = qs @ [p\<lparr>type := type p @ t\<rparr>], createNewParam = False, parse = Type, inString = b\<rparr>"
proof (induction t arbitrary: p)
  case Nil
  then show ?case by simp
next
  case (Cons c t)
  from Cons.prems have c: "typeChar c" and t: "list_all typeChar t" by simp_all
  from c have "switchParse Type b c p = (p\<lparr>type := type p @ [c]\<rparr>, False, Type, b)"
    by (simp add: typeChar_def)
  then show ?case using Cons.IH[OF t, of "p\<lparr>type := type p @ [c]\<rparr>"]
    by (simp add: loopRound_cur)
qed

lemma run_default:
  "defaultOk b d \<Longrightarrow>
   foldl loopRound \<lparr>params_of = qs @ [p], createNewParam = False, parse = Default, inString = b\<rparr> d =
   \<lparr>params_of = qs @ [p\<lparr>default := default p @ d\<rparr>], createNewParam = False, parse = Default,
    inString = inStringAfter b d\<rparr>"
proof (induction d arbitrary: p b)
  case Nil
  then show ?case by simp
next
  case (Cons c d)
  let ?b = "if c = CHR 0x22 then \<not> b else b"
  from Cons.prems have c: "b \<or> (c \<noteq> CHR '','' \<and> c \<noteq> CHR '' '')" and d: "defaultOk ?b d"
    by simp_all
  from c have "switchParse Default b c p = (p\<lparr>default := default p @ [c]\<rparr>, False, Default, ?b)"
    by auto
  then show ?case using Cons.IH[OF d, of "p\<lparr>default := default p @ [c]\<rparr>"]
    by (simp add: loopRound_cur)
qed

lemma run_prettyParam:
  assumes "paramOk p"
  shows "foldl loopRound
            \<lparr>params_of = qs @ [\<lparr>name = '''', type = ''Int'', default = ''''\<rparr>],
             createNewParam = False, parse = Name, inString = False\<rparr> (prettyParam p) =
         \<lparr>params_of = qs @ [p], createNewParam = False,
          parse = (if default p = [] then Type else Default),
          inString = inStringAfter False (default p)\<rparr>"
proof -
  from assms have n: "list_all nameChar (name p)" and t: "list_all typeChar (type p)"
    and d: "defaultOk False (default p)" by (simp_all add: paramOk_def)
  have 1: "foldl loopRound
            \<lparr>params_of = qs @ [\<lparr>name = '''', type = ''Int'', default = ''''\<rparr>],
             createNewParam = False, parse = Name, inString = False\<rparr> (name p @ '':'' @ type p) =
         \<lparr>params_of = qs @ [\<lparr>name = name p, type = type p, default = ''''\<rparr>],
          createNewParam = False, parse = Type, inString = False\<rparr>"
    by (simp add: run_name[OF n] run_type[OF t] loopRound_cur)
  show ?thesis
  proof (cases "default p = []")
    case True
    then have "prettyParam p = name p @ '':'' @ type p" by (simp add: prettyParam_def)
    with 1 True show ?thesis by simp
  next
    case False
    then have "prettyParam p = (name p @ '':'' @ type p) @ '' = '' @ default p"
      by (simp add: prettyParam_def)
    with 1 False show ?thesis
      by (simp add: loopRound_cur run_default[OF d])
  qed
qed

lemma prettyParam_nonempty: "prettyParam p \<noteq> []"
  by (simp add: prettyParam_def)

lemma pretty_nonempty: "ps \<noteq> [] \<Longrightarrow> pretty ps \<noteq> []"
  by (induction ps rule: pretty.induct) (simp_all add: prettyParam_nonempty)

lemma comma_blank_after_param:
  assumes "closedParam p" "paramOk p"
  shows "foldl loopRound
           \<lparr>params_of = qs @ [p], createNewParam = False,
            parse = (if default p = [] then Type else Default),
            inString = inStringAfter False (default p)\<rparr> '', '' =
         \<lparr>params_of = (qs @ [p]) @ [\<lparr>name = '''', type = ''Int'', default = ''''\<rparr>],
          createNewParam = False, parse = Name, inString = False\<rparr>"
proof -
  let ?st = "\<lparr>params_of = qs @ [p], createNewParam = False,
            parse = (if default p = [] then Type else Default),
            inString = inStringAfter False (default p)\<rparr>"
  have 1: "loopRound ?st CHR '','' =
      \<lparr>params_of = qs @ [p], createNewParam = True, parse = Name, inString = False\<rparr>"
    using assms(1) by (simp add: closedParam_def loopRound_cur)
  have 2: "loopRound \<lparr>params_of = qs @ [p], createNewParam = True, parse = Name, inString = False\<rparr>
        CHR '' '' =
      \<lparr>params_of = (qs @ [p]) @ [\<lparr>name = '''', type = ''Int'', default = ''''\<rparr>],
          createNewParam = False, parse = Name, inString = False\<rparr>"
    by (subst loopRound_new, subst loopRound_cur) simp
  have "foldl loopRound ?st '', '' = loopRound (loopRound ?st CHR '','') CHR '' ''" by simp
  then show ?thesis by (simp only: 1 2)
qed

lemma run_pretty:
  "paramsOk ps \<Longrightarrow>
   foldl loopRound
     \<lparr>params_of = qs @ [\<lparr>name = '''', type = ''Int'', default = ''''\<rparr>],
      createNewParam = False, parse = Name, inString = False\<rparr> (pretty ps) =
   \<lparr>params_of = qs @ ps, createNewParam = False,
    parse = (if default (last ps) = [] then Type else Default),
    inString = inStringAfter False (default (last ps))\<rparr>"
proof (induction ps arbitrary: qs rule: pretty.induct)
  case 1
  then show ?case by (simp add: paramsOk_def)
next
  case (2 p)
  then show ?case by (simp add: paramsOk_def run_prettyParam)
next
  case (3 p q rest)
  from "3.prems" have p: "paramOk p" "closedParam p" and rest: "paramsOk (q # rest)"
    by (simp_all add: paramsOk_def)
  have "foldl loopRound
     \<lparr>params_of = qs @ [\<lparr>name = '''', type = ''Int'', default = ''''\<rparr>],
      createNewParam = False, parse = Name, inString = False\<rparr> (pretty (p # q # rest)) =
     foldl loopRound
       \<lparr>params_of = (qs @ [p]) @ [\<lparr>name = '''', type = ''Int'', default = ''''\<rparr>],
        createNewParam = False, parse = Name, inString = False\<rparr> (pretty (q # rest))"
    by (simp only: pretty.simps foldl_append run_prettyParam[OF p(1)]
        comma_blank_after_param[OF p(2,1)])
  also have "\<dots> = \<lparr>params_of = (qs @ [p]) @ (q # rest), createNewParam = False,
    parse = (if default (last (q # rest)) = [] then Type else Default),
    inString = inStringAfter False (default (last (q # rest)))\<rparr>"
    by (rule "3.IH"[OF rest])
  finally show ?case by simp
qed

lemma run_pretty_start:
  assumes "paramsOk ps"
  shows "foldl loopRound startState (pretty ps) =
   \<lparr>params_of = ps, createNewParam = False,
    parse = (if default (last ps) = [] then Type else Default),
    inString = inStringAfter False (default (last ps))\<rparr>"
proof -
  from assms have "pretty ps \<noteq> []" by (simp add: paramsOk_def pretty_nonempty)
  then show ?thesis
    unfolding startState_def using run_pretty[OF assms, of "[]"] by (simp add: foldl_new)
qed

section \<open>The loop keeps its invariant\<close>

lemma inStringAfter_snoc:
  "inStringAfter b (d @ [c]) = (if c = CHR 0x22 then \<not> inStringAfter b d else inStringAfter b d)"
  by (induction d arbitrary: b) simp_all

lemma defaultOk_snoc:
  "defaultOk b (d @ [c]) =
   (defaultOk b d \<and> (inStringAfter b d \<or> (c \<noteq> CHR '','' \<and> c \<noteq> CHR '' '')))"
  by (induction d arbitrary: b) auto

lemma switchParse_ok:
  assumes "paramOk p" "fits m b p" "switchParse m b c p = (p', new, m', b')"
  shows "paramOk p' \<and> (if new then m' = Name \<and> \<not> b' \<and> closedParam p' else fits m' b' p')"
proof (cases m)
  case Name
  with assms show ?thesis
    by (auto simp: paramOk_def fits_def closedParam_def nameChar_def typeChar_def
        split: if_splits)
next
  case Type
  with assms show ?thesis
    by (auto simp: paramOk_def fits_def closedParam_def typeChar_def split: if_splits)
next
  case Default
  with assms show ?thesis
    by (auto simp: paramOk_def fits_def closedParam_def inStringAfter_snoc defaultOk_snoc
        split: if_splits)
qed

lemma loopRound_stateOk:
  assumes "stateOk st"
  shows "stateOk (loopRound st c)"
proof -
  define ps where "ps = (if createNewParam st
      then params_of st @ [\<lparr>name = '''', type = ''Int'', default = ''''\<rparr>] else params_of st)"
  from assms have ne: "ps \<noteq> []" by (auto simp: ps_def stateOk_def)
  have all: "list_all paramOk ps"
    using assms by (auto simp: ps_def stateOk_def paramOk_def nameChar_def typeChar_def)
  have cl: "list_all closedParam (butlast ps)"
    using assms by (auto simp: ps_def stateOk_def)
  have ft: "fits (parse st) (inString st) (last ps)"
    using assms by (auto simp: ps_def stateOk_def fits_def)
  from all ne have lastok: "paramOk (last ps)" by (simp add: list_all_iff)
  from all have butok: "list_all paramOk (butlast ps)"
    by (auto simp: list_all_iff dest: in_set_butlastD)
  obtain p' new m' b' where sw: "switchParse (parse st) (inString st) c (last ps) = (p', new, m', b')"
    by (cases "switchParse (parse st) (inString st) c (last ps)") auto
  then have r: "loopRound st c =
      \<lparr>params_of = butlast ps @ [p'], createNewParam = new, parse = m', inString = b'\<rparr>"
    by (simp add: loopRound_def ps_def Let_def)
  from switchParse_ok[OF lastok ft sw] butok cl show ?thesis
    unfolding r by (auto simp: stateOk_def split: if_splits)
qed

lemma foldl_stateOk: "stateOk st \<Longrightarrow> stateOk (foldl loopRound st s)"
  by (induction s arbitrary: st) (simp_all add: loopRound_stateOk)

lemma stateOk_start: "stateOk startState"
  by (simp add: stateOk_def startState_def)

lemma foldl_loopRound_nonempty: "s \<noteq> [] \<Longrightarrow> params_of (foldl loopRound st s) \<noteq> []"
  by (cases s rule: rev_cases) (simp_all add: loopRound_nonempty)

lemma paramsOk_parsed:
  assumes "s \<noteq> []"
  shows "paramsOk (params_of (foldl loopRound startState s))"
proof -
  have "stateOk (foldl loopRound startState s)" by (rule foldl_stateOk[OF stateOk_start])
  moreover have "list_all closedParam (butlast ps)" if "list_all closedParam ps" for ps
    using that by (auto simp: list_all_iff dest: in_set_butlastD)
  ultimately show ?thesis
    using foldl_loopRound_nonempty[OF assms, of startState]
    by (auto simp: paramsOk_def stateOk_def split: if_splits)
qed

section \<open>White space at the ends of the rendering\<close>

lemma switchParse_name_kept:
  "switchParse m b c p = (p', new, m', b') \<Longrightarrow> name p' = name p \<or> (m = Name \<and> name p' = name p @ [c])"
  by (cases m) (auto split: if_splits)

lemma switchParse_leaves_name:
  "switchParse m b c p = (p', new, m', b') \<Longrightarrow> m \<noteq> Name \<Longrightarrow> new \<or> m' \<noteq> Name"
  by (cases m) (auto split: if_splits)

lemma switchParse_first:
  assumes "\<not> isWhiteSpace c"
    and "switchParse Name b c \<lparr>name = '''', type = ''Int'', default = ''''\<rparr> = (p', new, m', b')"
  shows "name p' = [c] \<or> (name p' = [] \<and> (new \<or> m' \<noteq> Name))"
  using assms by (auto simp: isWhiteSpace_def split: if_splits)

lemma headOk_first:
  assumes "\<not> isWhiteSpace c"
  shows "headOk (loopRound startState c)"
proof -
  obtain p' new m' b' where
    sw: "switchParse Name False c \<lparr>name = '''', type = ''Int'', default = ''''\<rparr> = (p', new, m', b')"
    using prod_cases4 by blast
  then have r: "loopRound startState c =
      \<lparr>params_of = [p'], createNewParam = new, parse = m', inString = b'\<rparr>"
    by (simp add: loopRound_def startState_def Let_def del: switchParse.simps)
  from switchParse_first[OF assms sw] assms show ?thesis
    unfolding r by (auto simp: headOk_def)
qed

lemma headOk_step:
  assumes "headOk st"
  shows "headOk (loopRound st c)"
proof -
  from assms obtain q rest where ps: "params_of st = q # rest"
    by (auto simp: headOk_def split: list.splits)
  define ps where "ps = (if createNewParam st
      then params_of st @ [\<lparr>name = '''', type = ''Int'', default = ''''\<rparr>] else params_of st)"
  obtain p' new m' b' where sw: "switchParse (parse st) (inString st) c (last ps) = (p', new, m', b')"
    by (cases "switchParse (parse st) (inString st) c (last ps)") auto
  then have r: "loopRound st c =
      \<lparr>params_of = butlast ps @ [p'], createNewParam = new, parse = m', inString = b'\<rparr>"
    by (simp add: loopRound_def ps_def Let_def)
  show ?thesis
  proof (cases "rest \<noteq> [] \<or> createNewParam st")
    case True
    then have "butlast ps = q # butlast (tl ps)" "butlast (tl ps) @ [p'] \<noteq> []"
      using ps by (auto simp: ps_def butlast_append)
    moreover from True ps have "tl ps \<noteq> []" by (auto simp: ps_def)
    ultimately show ?thesis
      using assms ps True unfolding r by (auto simp: headOk_def split: list.splits)
  next
    case False
    then have one: "ps = [q]" "rest = []" "\<not> createNewParam st" using ps by (auto simp: ps_def)
    from sw one have sw': "switchParse (parse st) (inString st) c q = (p', new, m', b')" by simp
    show ?thesis
    proof (cases "name q")
      case Nil
      with assms ps one have "parse st \<noteq> Name" by (simp add: headOk_def)
      from switchParse_leaves_name[OF sw' this] switchParse_name_kept[OF sw'] Nil \<open>parse st \<noteq> Name\<close>
      show ?thesis unfolding r using one by (auto simp: headOk_def)
    next
      case (Cons a as)
      with assms ps one have "\<not> isWhiteSpace a" by (simp add: headOk_def)
      with switchParse_name_kept[OF sw'] Cons show ?thesis
        unfolding r using one by (auto simp: headOk_def)
    qed
  qed
qed

lemma headOk_parsed:
  assumes "s \<noteq> []" "\<not> isWhiteSpace (hd s)"
  shows "headOk (foldl loopRound startState s)"
proof -
  have "headOk st \<Longrightarrow> headOk (foldl loopRound st t)" for st t
    by (induction t arbitrary: st) (simp_all add: headOk_step)
  with assms show ?thesis by (cases s) (simp_all add: headOk_first)
qed

lemma pretty_hd:
  assumes "headOk st"
  shows "pretty (params_of st) \<noteq> [] \<and> \<not> isWhiteSpace (hd (pretty (params_of st)))"
proof -
  from assms obtain q rest where ps: "params_of st = q # rest"
    by (auto simp: headOk_def split: list.splits)
  have "prettyParam q \<noteq> [] \<and> \<not> isWhiteSpace (hd (prettyParam q))"
    using assms ps by (cases "name q") (auto simp: headOk_def prettyParam_def isWhiteSpace_def)
  then show ?thesis using ps by (cases rest) auto
qed

lemma trim_decomp:
  assumes "s \<noteq> []" "\<not> isWhiteSpace (hd s)"
  shows "trim s \<noteq> []" and "\<exists>w. s = trim s @ w \<and> list_all isWhiteSpace w"
    and "\<not> isWhiteSpace (last s) \<Longrightarrow> trim s = s"
proof -
  from assms have d: "dropWhile isWhiteSpace s = s" by (cases s) auto
  then have t: "trim s = rev (dropWhile isWhiteSpace (rev s))" by (simp add: trim_def)
  from assms have "hd s \<in> set (rev s)" by simp
  with assms(2) have "dropWhile isWhiteSpace (rev s) \<noteq> []"
    by (metis dropWhile_eq_Nil_conv)
  with t show "trim s \<noteq> []" by simp
  have "rev (takeWhile isWhiteSpace (rev s) @ dropWhile isWhiteSpace (rev s)) = s"
    by (simp only: takeWhile_dropWhile_id rev_rev_ident)
  then have "rev (dropWhile isWhiteSpace (rev s)) @ rev (takeWhile isWhiteSpace (rev s)) = s"
    by (simp only: rev_append)
  then have "s = trim s @ rev (takeWhile isWhiteSpace (rev s))" by (simp only: t)
  moreover have "list_all isWhiteSpace (rev (takeWhile isWhiteSpace (rev s)))"
    by (auto simp: list_all_iff dest: set_takeWhileD)
  ultimately show "\<exists>w. s = trim s @ w \<and> list_all isWhiteSpace w" by blast
  show "trim s = s" if "\<not> isWhiteSpace (last s)"
  proof -
    from assms(1) that have "dropWhile isWhiteSpace (rev s) = rev s"
      by (cases s rule: rev_cases) auto
    with t show ?thesis by simp
  qed
qed

lemma trim_hd:
  assumes "trim s \<noteq> []"
  shows "\<not> isWhiteSpace (hd (trim s))"
proof -
  define a where "a = dropWhile isWhiteSpace s"
  have t: "trim s = rev (dropWhile isWhiteSpace (rev a))" by (simp add: trim_def a_def)
  with assms have a: "a \<noteq> []" by auto
  then have h: "\<not> isWhiteSpace (hd a)" unfolding a_def by (rule hd_dropWhile)
  have "trim a = trim s" using a h by (cases a) (auto simp: trim_def a_def)
  with trim_decomp(2)[OF a h] assms obtain w where "a = trim s @ w" by auto
  with assms have "hd a = hd (trim s)" by (cases "trim s") auto
  with h show ?thesis by simp
qed

lemma same_snoc: "isWhiteSpace c \<Longrightarrow> sameButTrailingSpace (t @ [c]) t"
  by (simp add: sameButTrailingSpace_def)

lemma same_refl: "sameButTrailingSpace t t"
  by (simp add: sameButTrailingSpace_def)

lemma same_trans:
  "sameButTrailingSpace a b \<Longrightarrow> sameButTrailingSpace b c \<Longrightarrow> sameButTrailingSpace a c"
  by (simp add: sameButTrailingSpace_def)

lemma switchParse_ws:
  assumes "isWhiteSpace c" "m \<noteq> Name" "switchParse m b c p = (p', new, m', b')"
  shows "\<not> new \<and> m' = m \<and> b' = b \<and> name p' = name p
     \<and> sameButTrailingSpace (type p') (type p)
     \<and> sameButTrailingSpace (default p') (default p)"
proof -
  from assms(1) have c: "c \<noteq> CHR '',''" "c \<noteq> CHR ''=''" "c \<noteq> CHR 0x22"
    by (auto simp: isWhiteSpace_def)
  show ?thesis
  proof (cases m)
    case Name
    with assms(2) show ?thesis by simp
  next
    case Type
    with assms(3) c show ?thesis
      by (auto simp: same_refl same_snoc[OF assms(1)] split: if_splits)
  next
    case Default
    with assms(3) c show ?thesis
      by (auto simp: same_refl same_snoc[OF assms(1)] split: if_splits)
  qed
qed

lemma switchParse_ws_name:
  assumes "isWhiteSpace c" "switchParse Name b c p = (p', new, m', b')"
  shows "m' = Name"
proof -
  from assms(1) have "c \<noteq> CHR '':''" "c \<noteq> CHR ''=''" "c \<noteq> CHR ''%''" "c \<noteq> CHR ''#''"
    "c \<noteq> CHR ''!''" "c \<noteq> CHR ''$''"
    by (auto simp: isWhiteSpace_def)
  with assms(2) show ?thesis by (auto split: if_splits)
qed

lemma loopRound_parts:
  obtains ps p' new m' b' where
    "ps = (if createNewParam st
      then params_of st @ [\<lparr>name = '''', type = ''Int'', default = ''''\<rparr>] else params_of st)"
    "switchParse (parse st) (inString st) c (last ps) = (p', new, m', b')"
    "loopRound st c = \<lparr>params_of = butlast ps @ [p'], createNewParam = new, parse = m', inString = b'\<rparr>"
proof -
  define ps where "ps = (if createNewParam st
      then params_of st @ [\<lparr>name = '''', type = ''Int'', default = ''''\<rparr>] else params_of st)"
  obtain p' new m' b' where sw: "switchParse (parse st) (inString st) c (last ps) = (p', new, m', b')"
    using prod_cases4 by blast
  then have "loopRound st c =
      \<lparr>params_of = butlast ps @ [p'], createNewParam = new, parse = m', inString = b'\<rparr>"
    by (simp add: loopRound_def ps_def Let_def del: switchParse.simps)
  with that ps_def sw show ?thesis by blast
qed

lemma ws_run_name:
  "list_all isWhiteSpace w \<Longrightarrow> parse st = Name \<Longrightarrow> parse (foldl loopRound st w) = Name"
proof (induction w arbitrary: st)
  case Nil
  then show ?case by simp
next
  case (Cons c w)
  obtain ps p' new m' b' where
    sw: "switchParse (parse st) (inString st) c (last ps) = (p', new, m', b')" and
    r: "loopRound st c = \<lparr>params_of = butlast ps @ [p'], createNewParam = new, parse = m', inString = b'\<rparr>"
    by (rule loopRound_parts)
  from Cons.prems sw have "m' = Name" using switchParse_ws_name[of c "inString st" "last ps"] by simp
  with r have "parse (loopRound st c) = Name" by simp
  from Cons.IH[OF _ this] Cons.prems(1) show ?case by simp
qed

lemma ws_run:
  assumes "list_all isWhiteSpace w" "\<not> createNewParam st" "parse st \<noteq> Name" "params_of st \<noteq> []"
  shows "params_of (foldl loopRound st w) \<noteq> []
    \<and> butlast (params_of (foldl loopRound st w)) = butlast (params_of st)
    \<and> name (last (params_of (foldl loopRound st w))) = name (last (params_of st))
    \<and> sameButTrailingSpace (type (last (params_of (foldl loopRound st w)))) (type (last (params_of st)))
    \<and> sameButTrailingSpace (default (last (params_of (foldl loopRound st w))))
          (default (last (params_of st)))"
  using assms
proof (induction w arbitrary: st)
  case Nil
  then show ?case by (simp add: same_refl)
next
  case (Cons c w)
  obtain ps p' new m' b' where
    ps: "ps = (if createNewParam st
      then params_of st @ [\<lparr>name = '''', type = ''Int'', default = ''''\<rparr>] else params_of st)" and
    sw: "switchParse (parse st) (inString st) c (last ps) = (p', new, m', b')" and
    r: "loopRound st c = \<lparr>params_of = butlast ps @ [p'], createNewParam = new, parse = m', inString = b'\<rparr>"
    by (rule loopRound_parts)
  from Cons.prems have c: "isWhiteSpace c" and w: "list_all isWhiteSpace w" by simp_all
  from ps Cons.prems(2) have ps': "ps = params_of st" by simp
  note s = switchParse_ws[OF c Cons.prems(3) sw]
  have 1: "\<not> createNewParam (loopRound st c)" "parse (loopRound st c) \<noteq> Name"
    "params_of (loopRound st c) \<noteq> []"
    using s r Cons.prems(3) by simp_all
  from Cons.IH[OF w 1] s show ?case
    unfolding foldl_Cons r ps' by (auto intro: same_trans)
qed

lemma roundtrip_core:
  assumes "raw \<noteq> []" "\<not> isWhiteSpace (hd raw)"
    and ps: "ps = params_of (foldl loopRound startState raw)"
    and ps': "ps' = params_of (foldl loopRound startState (trim (pretty ps)))"
  shows "trim (pretty ps) \<noteq> [] \<and> ps' \<noteq> [] \<and> ps \<noteq> []
    \<and> butlast ps' = butlast ps
    \<and> name (last ps') = name (last ps)
    \<and> sameButTrailingSpace (type (last ps')) (type (last ps))
    \<and> sameButTrailingSpace (default (last ps')) (default (last ps))
    \<and> (\<not> isWhiteSpace (last (pretty ps)) \<longrightarrow> ps' = ps)"
proof -
  have ok: "paramsOk ps" unfolding ps by (rule paramsOk_parsed[OF assms(1)])
  have "headOk (foldl loopRound startState raw)" by (rule headOk_parsed[OF assms(1,2)])
  from pretty_hd[OF this] have pn: "pretty ps \<noteq> []" and ph: "\<not> isWhiteSpace (hd (pretty ps))"
    by (simp_all add: ps)
  have tn: "trim (pretty ps) \<noteq> []" by (rule trim_decomp(1)[OF pn ph])
  from trim_decomp(2)[OF pn ph] obtain w where
    w: "pretty ps = trim (pretty ps) @ w" "list_all isWhiteSpace w" by blast
  define s where "s = foldl loopRound startState (trim (pretty ps))"
  define fin where "fin = foldl loopRound startState (pretty ps)"
  have fin: "params_of fin = ps" "parse fin \<noteq> Name"
    unfolding fin_def run_pretty_start[OF ok] by simp_all
  have "fin = foldl loopRound startState (trim (pretty ps) @ w)"
    unfolding fin_def using w(1) by simp
  then have fs: "fin = foldl loopRound s w" by (simp add: s_def)
  have sok: "stateOk s" unfolding s_def by (rule foldl_stateOk[OF stateOk_start])
  have pm: "parse s \<noteq> Name"
  proof
    assume "parse s = Name"
    from ws_run_name[OF w(2) this] fs fin(2) show False by simp
  qed
  with sok have nn: "\<not> createNewParam s" by (auto simp: stateOk_def split: if_splits)
  have ne: "params_of s \<noteq> []" unfolding s_def by (rule foldl_loopRound_nonempty[OF tn])
  have s': "params_of s = ps'" by (simp add: s_def ps')
  from ws_run[OF w(2) nn pm ne] have
    "butlast ps = butlast ps'" "name (last ps) = name (last ps')"
    "sameButTrailingSpace (type (last ps)) (type (last ps'))"
    "sameButTrailingSpace (default (last ps)) (default (last ps'))"
    unfolding fs[symmetric] fin(1) s' by simp_all
  moreover have "ps' = ps" if "\<not> isWhiteSpace (last (pretty ps))"
    using trim_decomp(3)[OF pn ph that] ps' fin(1) by (simp add: fin_def)
  moreover from ok have "ps \<noteq> []" by (simp add: paramsOk_def)
  ultimately show ?thesis using tn ne s' by (auto simp: sameButTrailingSpace_def)
qed

lemma takeDescription_fields:
  "takeDescription (c, l) = Inr (c', l') \<Longrightarrow>
   params c' = params c \<and> paramsPretty c' = paramsPretty c"
  by (auto simp: takeDescription.simps split: if_splits option.splits)

lemma parseCommandParams_params:
  assumes "parseCommandParams (c\<lparr>paramsRaw := Some raw0\<rparr>) = Inr cmd"
  shows "trim raw0 = [] \<Longrightarrow> params cmd = params c"
    and "trim raw0 \<noteq> [] \<Longrightarrow>
         params cmd = Some (params_of (foldl loopRound startState (trim raw0)))
         \<and> paramsPretty cmd = Some (pretty (params_of (foldl loopRound startState (trim raw0))))"
proof -
  have "trim [] = []" by (simp add: trim_def)
  with assms show "trim raw0 = [] \<Longrightarrow> params cmd = params c"
    by (auto simp: parseCommandParams_eq split: if_splits)
  show "params cmd = Some (params_of (foldl loopRound startState (trim raw0)))
         \<and> paramsPretty cmd = Some (pretty (params_of (foldl loopRound startState (trim raw0))))"
    if "trim raw0 \<noteq> []"
    using assms that \<open>trim [] = []\<close> by (auto simp: parseCommandParams_eq split: if_splits)
qed

lemma figureFunction_params:
  assumes "figureFunction (c, l) = Inr (c', l')" "params c = None" "params c' = Some ps"
  shows "\<exists>raw. raw \<noteq> [] \<and> \<not> isWhiteSpace (hd raw)
     \<and> ps = params_of (foldl loopRound startState raw)
     \<and> paramsPretty c' = Some (pretty ps)"
proof -
  define raw0 where "raw0 = slice (substr l (indexOf l ''('' + 1)) 0 (- 1)"
  from assms have inc: "includesStr l ''(''"
    by (auto simp: figureFunction.simps split: if_splits)
  obtain cmd where cmd: "parseCommandParams (c\<lparr>paramsRaw := Some raw0\<rparr>) = Inr cmd"
    by (simp add: parseCommandParams_eq)
  with assms(1) inc have c': "c' = cmd\<lparr>isFunction := True\<rparr>"
    by (simp add: figureFunction.simps Let_def raw0_def)
  have t: "trim raw0 \<noteq> []"
  proof
    assume "trim raw0 = []"
    from parseCommandParams_params(1)[OF cmd this] assms(2,3) c' show False by simp
  qed
  from parseCommandParams_params(2)[OF cmd t] c' assms(3)
  have "ps = params_of (foldl loopRound startState (trim raw0))"
    "paramsPretty c' = Some (pretty ps)"
    by simp_all
  with t trim_hd[OF t] show ?thesis by blast
qed

lemma parsed_params_of_line:
  assumes "parseLine line = Inr c" "params c = Some ps"
  shows "\<exists>raw. raw \<noteq> [] \<and> \<not> isWhiteSpace (hd raw)
     \<and> ps = params_of (foldl loopRound startState raw)
     \<and> paramsPretty c = Some (pretty ps)"
proof -
  from assms(1) obtain c1 c2 l2 c3 l3 c4 l4 where
    s1: "trackModule (figureUrl (last (split line ''|'')) newCommand) = Inr c1" and
    s2: "takeDescription (c1, hd (split line ''|'')) = Inr (c2, l2)" and
    s3: "figureFunction (c2, l2) = Inr (c3, l3)" and
    s4: "takeReturns (c3, l3) = (c4, l4)" and
    c: "c = makeMarkdown (takeName (c4, l4))"
    by (rule parseLine_stages)
  have "params c1 = None"
    using trackModule_fields[OF s1] figureUrl_fields[of "last (split line ''|'')" newCommand]
    by (simp add: newCommand_def)
  with takeDescription_fields[OF s2] have c2: "params c2 = None" by simp
  from takeReturns_fields[OF s4] c have "params c = params c3" "paramsPretty c = paramsPretty c3"
    by simp_all
  with figureFunction_params[OF s3 c2, of ps] assms(2) show ?thesis by simp
qed

section \<open>Which lines throw\<close>

text \<open>
  The only statement of the per-line body that can throw is the read of
  \<open>pathSplits[1]\<close>: the description is read from a split that has a second piece
  whenever the separator occurs, and the loop of \<open>parseCommandParams\<close> always has a
  parameter to fill. So a line throws exactly when its path, the last segment up to
  the first \<open>#\<close>, is not empty and has no \<open>/\<close>; a catalog without such a line is
  parsed whole, one record for each line that is not empty.
\<close>

lemma splitAt_char_length:
  "length (splitAt [c] acc s) = Suc (length (filter (\<lambda>x. x = c) s))"
  by (induction s arbitrary: acc) auto

lemma split_char_second:
  "(at (split u [c]) 1 = None) = (c \<notin> set u)"
  by (auto simp: at_def split_def splitAt_char_length filter_empty_conv)

lemma splitAt_includes:
  "indexOf s sep \<noteq> - 1 \<Longrightarrow> sep \<noteq> [] \<Longrightarrow> 2 \<le> length (splitAt sep acc s)"
proof (induction s arbitrary: acc)
  case Nil
  then show ?case by simp
next
  case (Cons c cs)
  show ?case
  proof (cases "take (length sep) (c # cs) = sep")
    case True
    have "splitAt sep [] (drop (length sep) (c # cs)) \<noteq> []" by (rule splitAt_nonempty)
    then have "1 \<le> length (splitAt sep [] (drop (length sep) (c # cs)))"
      by (cases "splitAt sep [] (drop (length sep) (c # cs))") auto
    with True Cons.prems(2) show ?thesis by simp
  next
    case False
    with Cons.prems have "indexOf cs sep \<noteq> - 1" by (auto simp: Let_def split: if_splits)
    from Cons.IH[OF this Cons.prems(2)] False show ?thesis by simp
  qed
qed

lemma takeDescription_total: "\<exists>r. takeDescription (c, l) = Inr r"
proof (cases "includesStr l '' : ''")
  case True
  then have "2 \<le> length (splitAt '' : '' [] l)"
    using splitAt_includes[of l "'' : ''" "[]"] by (simp add: includesStr_def)
  with True show ?thesis by (simp add: takeDescription.simps at_def split_def)
next
  case False
  then show ?thesis by (simp add: takeDescription.simps)
qed

lemma figureFunction_total: "\<exists>r. figureFunction (c, l) = Inr r"
  by (simp add: figureFunction.simps Let_def parseCommandParams_eq)

lemma takeWhile_shorter: "c \<in> set s \<Longrightarrow> length (takeWhile (\<lambda>x. x \<noteq> c) s) < length s"
  by (induction s) auto

lemma figureUrl_url:
  "url (figureUrl rightSide command) = Some (takeWhile (\<lambda>x. x \<noteq> CHR ''#'') rightSide)"
proof (cases "CHR ''#'' \<in> set rightSide")
  case True
  let ?i = "length (takeWhile (\<lambda>x. x \<noteq> CHR ''#'') rightSide)"
  from True have i: "indexOf rightSide ''#'' = int ?i" by (simp add: indexOf_char)
  have lt: "?i < length rightSide" by (rule takeWhile_shorter[OF True])
  have loc: "substr rightSide (indexOf rightSide ''#'') = drop ?i rightSide"
    unfolding i by (rule substr_nat)
  have "slice rightSide 0 (- int (length (drop ?i rightSide))) = take ?i rightSide"
    using slice_0_neg[of "length rightSide - ?i" rightSide] lt by simp
  also have "\<dots> = takeWhile (\<lambda>x. x \<noteq> CHR ''#'') rightSide"
    by (metis takeWhile_eq_take)
  finally show ?thesis using True by (simp add: figureUrl_def includesStr_char loc Let_def)
next
  case False
  then have tw: "rightSide = takeWhile (\<lambda>x. x \<noteq> CHR ''#'') rightSide"
    by (induction rightSide) auto
  from False have "url (figureUrl rightSide command) = Some rightSide"
    by (simp add: figureUrl_def includesStr_char)
  also have "\<dots> = Some (takeWhile (\<lambda>x. x \<noteq> CHR ''#'') rightSide)"
    using tw by (rule arg_cong)
  finally show ?thesis .
qed

lemma trackModule_throws:
  "(\<exists>e. trackModule command = Inl e) =
   (case url command of None \<Rightarrow> False | Some u \<Rightarrow> u \<noteq> [] \<and> CHR ''/'' \<notin> set u)"
proof (cases "url command")
  case None
  then show ?thesis by (simp add: trackModule_def)
next
  case (Some u)
  show ?thesis
  proof (cases "at (split u ''/'') 1")
    case None
    with split_char_second[of u "CHR ''/''"] have "CHR ''/'' \<notin> set u" by simp
    with Some None show ?thesis by (simp add: trackModule_def Let_def)
  next
    case (Some seg)
    with split_char_second[of u "CHR ''/''"] have "CHR ''/'' \<in> set u" by simp
    with \<open>url command = Some u\<close> Some show ?thesis by (simp add: trackModule_def Let_def)
  qed
qed

lemma parseLine_throws_iff:
  "(parseLine line = Inl TypeError) =
   (takeWhile (\<lambda>x. x \<noteq> CHR ''#'') (last (split line ''|'')) \<noteq> []
    \<and> CHR ''/'' \<notin> set (takeWhile (\<lambda>x. x \<noteq> CHR ''#'') (last (split line ''|''))))"
proof -
  let ?c = "figureUrl (last (split line ''|'')) newCommand"
  have "(parseLine line = Inl TypeError) = (\<exists>e. trackModule ?c = Inl e)"
  proof (cases "trackModule ?c")
    case (Inl e)
    then show ?thesis by (cases e) (simp add: parseLine_def Let_def)
  next
    case (Inr c1)
    obtain s2 where s2: "takeDescription (c1, hd (split line ''|'')) = Inr s2"
      using takeDescription_total by blast
    obtain s3 where s3: "figureFunction s2 = Inr s3"
      using figureFunction_total[of "fst s2" "snd s2"] by auto
    from Inr s2 s3 show ?thesis by (simp add: parseLine_def Let_def)
  qed
  then show ?thesis by (simp add: trackModule_throws figureUrl_url)
qed

lemma forEach_stops:
  "line \<noteq> [] \<Longrightarrow> parseLine line = Inl e \<Longrightarrow> forEach (line # rest) commandsList = (Some e, commandsList)"
  by simp

lemma forEach_all_parsed:
  "\<forall>line\<in>set ls. parseLine line \<noteq> Inl TypeError \<Longrightarrow>
   fst (forEach ls commandsList) = None
   \<and> length (snd (forEach ls commandsList)) = length commandsList + length (filter (\<lambda>l. l \<noteq> []) ls)"
proof (induction ls arbitrary: commandsList)
  case Nil
  then show ?case by simp
next
  case (Cons l ls)
  then have "parseLine l \<noteq> Inl TypeError" by simp
  then obtain c where "parseLine l = Inr c" by (cases "parseLine l") (auto, metis error.exhaust)
  with Cons show ?case by simp
qed

section \<open>What the three cuts leave\<close>

lemma indexOf_nonneg: "indexOf s sub \<noteq> - 1 \<Longrightarrow> 0 \<le> indexOf s sub"
  by (induction s) (auto simp: Let_def split: if_splits)

lemma splitAt_first:
  "sep \<noteq> [] \<Longrightarrow> indexOf s sep = int i \<Longrightarrow>
   splitAt sep acc s = (acc @ take i s) # splitAt sep [] (drop (i + length sep) s)"
proof (induction s arbitrary: acc i)
  case Nil
  then show ?case by simp
next
  case (Cons c cs)
  show ?case
  proof (cases "take (length sep) (c # cs) = sep")
    case True
    with Cons.prems have "i = 0" by simp
    with True Cons.prems(1) show ?thesis by simp
  next
    case False
    with Cons.prems(2) have r: "indexOf cs sep \<noteq> - 1" "int i = indexOf cs sep + 1"
      by (auto simp: Let_def split: if_splits)
    from indexOf_nonneg[OF r(1)] r(2) obtain j where j: "indexOf cs sep = int j" "i = Suc j"
      by (metis nat_int nat_0_le add.commute of_nat_Suc of_nat_eq_iff)
    from Cons.IH[OF Cons.prems(1) j(1), of "acc @ [c]"] False j(2) show ?thesis by simp
  qed
qed

lemma split_second:
  assumes "sep \<noteq> []" "includesStr s sep"
  shows "at (split s sep) 1 = Some (hd (split (drop (nat (indexOf s sep) + length sep) s) sep))"
proof -
  from assms(2) have "indexOf s sep \<noteq> - 1" by (simp add: includesStr_def)
  from indexOf_nonneg[OF this] have i: "indexOf s sep = int (nat (indexOf s sep))" by simp
  have ne: "splitAt sep [] (drop (nat (indexOf s sep) + length sep) s) \<noteq> []"
    by (rule splitAt_nonempty)
  from splitAt_first[OF assms(1) i, of "[]"] ne assms(1) show ?thesis
    by (cases "splitAt sep [] (drop (nat (indexOf s sep) + length sep) s)")
       (simp_all add: split_def at_def)
qed

lemma takeDescription_exact:
  assumes "takeDescription (c, l0) = Inr (c', l1)"
  shows "if includesStr l0 '' : ''
         then description c' = Some (hd (split (drop (nat (indexOf l0 '' : '') + 3) l0) '' : ''))
              \<and> l1 = take (length l0
                    - (length (hd (split (drop (nat (indexOf l0 '' : '') + 3) l0) '' : '')) + 3)) l0
         else c' = c \<and> l1 = l0"
proof (cases "includesStr l0 '' : ''")
  case True
  define d where "d = hd (split (drop (nat (indexOf l0 '' : '') + 3) l0) '' : '')"
  have "length '' : '' = 3" by simp
  with split_second[of "'' : ''" l0] True have at: "at (split l0 '' : '') 1 = Some d"
    unfolding d_def by (simp only: list.distinct not_False_eq_True)
  from assms True at have "description c' = Some d" "l1 = slice l0 0 (- int (length d) - 3)"
    by (auto simp: takeDescription.simps)
  with slice_0_neg2[of 3 l0 "length d"] have "description c' = Some d \<and> l1 = take (length l0 - (length d + 3)) l0"
    by simp
  with True show ?thesis unfolding d_def by simp
next
  case False
  with assms show ?thesis by (simp add: takeDescription.simps)
qed

lemma figureFunction_exact:
  assumes "figureFunction (c, l1) = Inr (c', l2)"
  shows "l2 = (if CHR ''('' \<in> set l1
               then (if takeWhile (\<lambda>x. x \<noteq> CHR ''('') l1 @ ''('' = l1
                     then butlast (takeWhile (\<lambda>x. x \<noteq> CHR ''('') l1)
                     else takeWhile (\<lambda>x. x \<noteq> CHR ''('') l1)
               else l1)"
proof (cases "CHR ''('' \<in> set l1")
  case False
  with assms show ?thesis by (simp add: figureFunction.simps includesStr_char)
next
  case True
  define pre where "pre = takeWhile (\<lambda>x. x \<noteq> CHR ''('') l1"
  define t where "t = tl (dropWhile (\<lambda>x. x \<noteq> CHR ''('') l1)"
  have l: "l1 = pre @ ''('' @ t"
    unfolding pre_def t_def by (rule first_paren_decomp[OF True])
  have pre: "CHR ''('' \<notin> set pre"
    unfolding pre_def using set_takeWhileD by fastforce
  show ?thesis
  proof (cases "t = []")
    case False
    obtain cmd where cmd: "parseCommandParams (c\<lparr>paramsRaw := Some (butlast t)\<rparr>) = Inr cmd"
      by (simp add: parseCommandParams_eq)
    from figureFunction_decomp[OF pre False, of c] cmd assms l have "l2 = pre" by simp
    moreover from False l have "pre @ ''('' \<noteq> l1" by simp
    ultimately show ?thesis using True by (simp add: pre_def)
  next
    case t: True
    with l have l': "l1 = pre @ ''(''" by simp
    have i: "indexOf l1 ''('' = int (length pre)"
      using pre by (simp add: l' indexOf_char takeWhile_upto)
    have a: "substr l1 (indexOf l1 ''('' + 1) = []"
      using substr_nat[of l1 "length pre + 1"] i by (simp add: add.commute l')
    have b: "slice [] 0 (- 1) = []" by (simp add: slice_def)
    have c: "slice l1 0 (- int (length ([]::string)) - 2) = butlast pre"
      using slice_0_neg2[of 2 l1 0] by (simp add: l' butlast_conv_take)
    have d: "includesStr l1 ''(''" using True by (simp add: includesStr_char)
    obtain cmd where cmd: "parseCommandParams (c\<lparr>paramsRaw := Some []\<rparr>) = Inr cmd"
      by (simp add: parseCommandParams_eq)
    have "figureFunction (c, l1) = Inr (cmd\<lparr>isFunction := True\<rparr>, butlast pre)"
      by (simp only: figureFunction.simps Let_def a b c d if_True cmd sum.case)
    with assms have "l2 = butlast pre" by simp
    with True l' takeWhile_upto[OF pre, of "[]"] show ?thesis by (simp add: pre_def[symmetric])
  qed
qed

lemma takeReturns_exact:
  assumes "takeReturns (c, l2) = (c', l3)"
  shows "l3 = takeWhile (\<lambda>x. x \<noteq> CHR '':'') l2"
proof (cases "CHR '':'' \<in> set l2")
  case False
  then have tw: "takeWhile (\<lambda>x. x \<noteq> CHR '':'') l2 = l2" by (induction l2) auto
  from assms False have e: "l3 = l2" by (simp add: takeReturns.simps includesStr_char)
  show ?thesis unfolding e tw ..
next
  case True
  let ?j = "length (takeWhile (\<lambda>x. x \<noteq> CHR '':'') l2)"
  have i: "indexOf l2 '':'' = int ?j" using True by (simp add: indexOf_char)
  have lt: "?j < length l2" by (rule takeWhile_shorter[OF True])
  have r: "substr l2 (indexOf l2 '':'' + 1) = drop (?j + 1) l2"
    using substr_nat[of l2 "?j + 1"] i by (simp add: add.commute)
  have "slice l2 0 (- int (length (drop (?j + 1) l2)) - 1) = take ?j l2"
    using slice_0_neg2[of 1 l2 "length (drop (?j + 1) l2)"] lt by simp
  also have "\<dots> = takeWhile (\<lambda>x. x \<noteq> CHR '':'') l2" by (metis takeWhile_eq_take)
  finally have "slice l2 0 (- int (length (drop (?j + 1) l2)) - 1) = takeWhile (\<lambda>x. x \<noteq> CHR '':'') l2" .
  with assms True r show ?thesis by (auto simp: takeReturns.simps includesStr_char Let_def)
qed

lemma description_kept:
  "description (figureUrl r c) = description c"
  "trackModule c = Inr c' \<Longrightarrow> description c' = description c"
  "figureFunction (c, l) = Inr (c', l') \<Longrightarrow> description c' = description c"
  "takeReturns (c, l) = (c', l') \<Longrightarrow> description c' = description c"
  "description (takeName (c, l)) = description c"
  "description (makeMarkdown c) = description c"
  by (auto simp: figureUrl_def trackModule_def figureFunction.simps takeReturns.simps
      makeMarkdown_def parseCommandParams_eq Let_def split: option.splits if_splits)

lemma rest_nonempty_iff:
  "(takeWhile (\<lambda>x. x \<noteq> CHR '':'')
      (if CHR ''('' \<in> set l1
       then (if takeWhile (\<lambda>x. x \<noteq> CHR ''('') l1 @ ''('' = l1
             then butlast (takeWhile (\<lambda>x. x \<noteq> CHR ''('') l1)
             else takeWhile (\<lambda>x. x \<noteq> CHR ''('') l1)
       else l1) \<noteq> [])
   = (l1 \<noteq> [] \<and> hd l1 \<noteq> CHR '':'' \<and> hd l1 \<noteq> CHR ''('' \<and> l1 \<noteq> [hd l1, CHR ''(''])"
proof (cases l1)
  case Nil
  then show ?thesis by simp
next
  case (Cons h t)
  show ?thesis
  proof (cases "h = CHR ''(''")
    case True
    with Cons show ?thesis by simp
  next
    case False
    show ?thesis
    proof (cases "h = CHR '':''")
      case True
      with Cons False show ?thesis
        by (cases "takeWhile (\<lambda>x. x \<noteq> CHR ''('') t" rule: rev_cases) auto
    next
      case hc: False
      with Cons False show ?thesis
        by (cases "takeWhile (\<lambda>x. x \<noteq> CHR ''('') t" rule: rev_cases) auto
    qed
  qed
qed

section \<open>A line that ends the batch\<close>

text \<open>
  C1. The claim has every line that is not empty add one record, none ending the batch.
  A line whose last pipe-delimited segment is not empty and has no \<open>/\<close> makes
  \<open>pathSplits[1].toLowerCase()\<close> throw: the line adds no record, no later line is parsed,
  and the \<open>try\<close> block of \<open>cacheCommands\<close> hides the exception.
\<close>

theorem line_without_slash_aborts_batch:
  "parseLine ''Foo|bar'' = Inl TypeError
   \<and> addCommand [CHR 0x0A] (''Foo|bar'' @ [CHR 0x0A] @ sinLine) [] = (Some TypeError, [])
   \<and> map realName (snd (addCommand [CHR 0x0A] (''Abs|/mod/a/b'' @ [CHR 0x0A] @ ''Foo|bar'' @ [CHR 0x0A] @ sinLine) []))
      = [''Abs'']
   \<and> cacheCommands [CHR 0x0A] (Some (''Foo|bar'' @ [CHR 0x0A] @ sinLine)) False None = (True, Some [])"
  by code_simp

section \<open>The sine line\<close>

text \<open>
  C2, as claimed: the sine line gives a record whose \<open>module\<close> is \<open>mod/math.mod\<close> and
  whose description is \<open>Returns sine of angle\<close>. The module is not that, with or without
  the blanks around the pipes, and with the blanks the description keeps the one before
  the pipe.
\<close>

theorem sin_line_counterexample:
  "map module (snd (addCommand [CHR 0x0A] sinLine [])) \<noteq> [Some ''mod/math.mod'']
   \<and> map module (snd (addCommand [CHR 0x0A] sinLineTight [])) \<noteq> [Some ''mod/math.mod'']
   \<and> map description (snd (addCommand [CHR 0x0A] sinLine [])) \<noteq> [Some ''Returns sine of angle'']"
  by code_simp

text \<open>
  C2, amended. The sine line gives a record with \<open>isFunction\<close> true, no \<open>returns\<close>,
  description \<open>Returns sine of angle\<close> followed by the blank that precedes the pipe, and
  module \<open>math.mod/math.bmx\<close>: segments 2 and 3 of the path, whose segments are a blank,
  \<open>mod\<close>, \<open>math.mod\<close>, \<open>math.bmx\<close>, \<open>Sin\<close>. Written without blanks around the pipes,
  the line gives the description without the blank, the first path segment empty and
  the same module.
\<close>

theorem sin_line_record:
  "parseLine sinLine =
     Inr \<lparr>realName = ''Sin#'', searchName = ''sin#'',
          description = Some ''Returns sine of angle '', markdownString = True,
          isFunction = True, returns = None,
          params = Some [\<lparr>name = ''angle'', type = ''Float'', default = ''''\<rparr>],
          paramsRaw = Some ''angle#'', paramsPretty = Some ''angle:Float'',
          url = Some '' /mod/math.mod/math.bmx/Sin'', urlLocation = None,
          module = Some ''math.mod/math.bmx''\<rparr>
   \<and> split '' /mod/math.mod/math.bmx/Sin'' ''/'' = ['' '', ''mod'', ''math.mod'', ''math.bmx'', ''Sin'']
   \<and> parseLine sinLineTight =
     Inr \<lparr>realName = ''Sin#'', searchName = ''sin#'',
          description = Some ''Returns sine of angle'', markdownString = True,
          isFunction = True, returns = None,
          params = Some [\<lparr>name = ''angle'', type = ''Float'', default = ''''\<rparr>],
          paramsRaw = Some ''angle#'', paramsPretty = Some ''angle:Float'',
          url = Some ''/mod/math.mod/math.bmx/Sin'', urlLocation = None,
          module = Some ''math.mod/math.bmx''\<rparr>
   \<and> split ''/mod/math.mod/math.bmx/Sin'' ''/'' = ['''', ''mod'', ''math.mod'', ''math.bmx'', ''Sin'']"
  by code_simp

section \<open>An empty catalog\<close>

text \<open>
  C3. The claim has \<open>cacheCommandsIfEmpty\<close> answer false for a readable catalog without
  records, and in general answer whether the index is not empty. The code answers
  \<open>length >= 0\<close>: on the empty catalog it answers true while the search without a name
  returns nothing, and in general it answers whether the index is defined.
\<close>

theorem empty_catalog_reports_populated:
  "cacheCommandsIfEmpty [CHR 0x0A] (Some '''') False None = (True, Some [])
   \<and> getCommand [CHR 0x0A] (Some '''') None None None = ([], Some [])
   \<and> fst (cacheCommandsIfEmpty EOL file showPopup commandsList)
       = (snd (cacheCommandsIfEmpty EOL file showPopup commandsList) \<noteq> None)"
proof -
  have "cacheCommandsIfEmpty [CHR 0x0A] (Some '''') False None = (True, Some [])" by code_simp
  moreover have "getCommand [CHR 0x0A] (Some '''') None None None = ([], Some [])" by code_simp
  moreover have "fst (cacheCommandsIfEmpty EOL file showPopup commandsList)
       = (snd (cacheCommandsIfEmpty EOL file showPopup commandsList) \<noteq> None)"
    by (simp add: cacheCommandsIfEmpty_def Let_def split: option.splits)
  ultimately show ?thesis by blast
qed

section \<open>Searching the index\<close>

text \<open>
  C4, as claimed: after indexing the sine line, a search for \<open>sin\<close> returns exactly one
  record, whose \<open>searchName\<close> is \<open>sin\<close>. The search returns nothing: the name keeps its
  sigil, so the record's \<open>searchName\<close> is \<open>sin#\<close>.
\<close>

theorem find_sin_counterexample:
  "fst (getCommand [CHR 0x0A] (Some sinLine) (Some ''sin'') None None) = []
   \<and> map searchName (the (snd (getCommand [CHR 0x0A] (Some sinLine) (Some ''sin'') None None))) = [''sin#'']"
  by code_simp

text \<open>
  C4, amended. After indexing the sine line, a search for \<open>sin#\<close> returns exactly one
  record, whose \<open>searchName\<close> is \<open>sin#\<close>; the search with \<open>hasParameters\<close> set returns
  the same. A filter whose flags are all absent or false gives what no filter gives, and
  a record returned under a filter is returned under every filter with fewer flags set:
  flags only ever exclude when set.
\<close>

theorem find_sin_sigil:
  "map searchName (fst (getCommand [CHR 0x0A] (Some sinLine) (Some ''sin#'') None None)) = [''sin#'']
   \<and> fst (getCommand [CHR 0x0A] (Some sinLine) (Some ''sin#'')
          (Some \<lparr>hasDescription = None, hasMarkdown = None, hasParameters = Some True\<rparr>) None)
       = fst (getCommand [CHR 0x0A] (Some sinLine) (Some ''sin#'') None None)
   \<and> (\<not> flag (hasDescription f) \<and> \<not> flag (hasMarkdown f) \<and> \<not> flag (hasParameters f)
        \<longrightarrow> getCommand EOL file command (Some f) commandsList
            = getCommand EOL file command None commandsList)
   \<and> ((flag (hasDescription g) \<longrightarrow> flag (hasDescription f))
        \<and> (flag (hasMarkdown g) \<longrightarrow> flag (hasMarkdown f))
        \<and> (flag (hasParameters g) \<longrightarrow> flag (hasParameters f))
        \<and> x \<in> set (fst (getCommand EOL file command (Some f) commandsList))
        \<longrightarrow> x \<in> set (fst (getCommand EOL file command (Some g) commandsList)))"
proof -
  have a: "map searchName (fst (getCommand [CHR 0x0A] (Some sinLine) (Some ''sin#'') None None)) = [''sin#'']"
    by code_simp
  have b: "fst (getCommand [CHR 0x0A] (Some sinLine) (Some ''sin#'')
          (Some \<lparr>hasDescription = None, hasMarkdown = None, hasParameters = Some True\<rparr>) None)
       = fst (getCommand [CHR 0x0A] (Some sinLine) (Some ''sin#'') None None)"
    by code_simp
  have c: "getCommand EOL file command (Some f) commandsList = getCommand EOL file command None commandsList"
    if "\<not> flag (hasDescription f)" "\<not> flag (hasMarkdown f)" "\<not> flag (hasParameters f)"
    using filteredOut_flags_off[OF that]
    by (simp add: getCommand_def Let_def matchLoop_filter split: option.splits)
  have d: "x \<in> set (fst (getCommand EOL file command (Some g) commandsList))"
    if "flag (hasDescription g) \<longrightarrow> flag (hasDescription f)"
       "flag (hasMarkdown g) \<longrightarrow> flag (hasMarkdown f)"
       "flag (hasParameters g) \<longrightarrow> flag (hasParameters f)"
       "x \<in> set (fst (getCommand EOL file command (Some f) commandsList))"
    using that(4) filteredOut_mono[OF that(1,2,3), of x]
    by (auto simp: getCommand_def Let_def matchLoop_filter split: option.splits)
  from a b c d show ?thesis by blast
qed

text \<open>The theorem on an index of two records, of which one has no description: a
  filter with \<open>hasDescription\<close> false returns both, as no filter does, and the record
  that the filter with \<open>hasDescription\<close> true returns is returned under the filter with
  no flag.\<close>

theorem find_sin_sigil_witness:
  "\<not> flag (hasDescription \<lparr>hasDescription = Some False, hasMarkdown = None, hasParameters = None\<rparr>)
   \<and> \<not> flag (hasMarkdown \<lparr>hasDescription = Some False, hasMarkdown = None, hasParameters = None\<rparr>)
   \<and> \<not> flag (hasParameters \<lparr>hasDescription = Some False, hasMarkdown = None, hasParameters = None\<rparr>)
   \<and> map realName (fst (getCommand [CHR 0x0A] (Some (sinLine @ [CHR 0x0A] @ ''Abs|/mod/a/b'')) None
         (Some \<lparr>hasDescription = Some False, hasMarkdown = None, hasParameters = None\<rparr>) None))
       = [''Sin#'', ''Abs'']
   \<and> map realName (fst (getCommand [CHR 0x0A] (Some (sinLine @ [CHR 0x0A] @ ''Abs|/mod/a/b'')) None
         (Some \<lparr>hasDescription = Some True, hasMarkdown = None, hasParameters = None\<rparr>) None))
       = [''Sin#'']
   \<and> hd (fst (getCommand [CHR 0x0A] (Some (sinLine @ [CHR 0x0A] @ ''Abs|/mod/a/b'')) None
         (Some \<lparr>hasDescription = Some True, hasMarkdown = None, hasParameters = None\<rparr>) None))
       \<in> set (fst (getCommand [CHR 0x0A] (Some (sinLine @ [CHR 0x0A] @ ''Abs|/mod/a/b'')) None
         (Some \<lparr>hasDescription = Some True, hasMarkdown = None, hasParameters = None\<rparr>) None))
   \<and> hd (fst (getCommand [CHR 0x0A] (Some (sinLine @ [CHR 0x0A] @ ''Abs|/mod/a/b'')) None
         (Some \<lparr>hasDescription = Some True, hasMarkdown = None, hasParameters = None\<rparr>) None))
       \<in> set (fst (getCommand [CHR 0x0A] (Some (sinLine @ [CHR 0x0A] @ ''Abs|/mod/a/b'')) None
         (Some \<lparr>hasDescription = Some False, hasMarkdown = None, hasParameters = None\<rparr>) None))"
proof -
  let ?f = "\<lparr>hasDescription = Some False, hasMarkdown = None, hasParameters = None\<rparr>"
  let ?d = "\<lparr>hasDescription = Some True, hasMarkdown = None, hasParameters = None\<rparr>"
  let ?file = "Some (sinLine @ [CHR 0x0A] @ ''Abs|/mod/a/b'')"
  let ?x = "hd (fst (getCommand [CHR 0x0A] ?file None (Some ?d) None))"
  have off: "\<not> flag (hasDescription ?f)" "\<not> flag (hasMarkdown ?f)" "\<not> flag (hasParameters ?f)"
    by (simp_all add: flag_def)
  have e: "map realName (fst (getCommand [CHR 0x0A] ?file None None None)) = [''Sin#'', ''Abs'']"
    by code_simp
  have t: "map realName (fst (getCommand [CHR 0x0A] ?file None (Some ?d) None)) = [''Sin#'']"
    by code_simp
  have m: "?x \<in> set (fst (getCommand [CHR 0x0A] ?file None (Some ?d) None))"
    by code_simp
  from find_sin_sigil[of ?f "[CHR 0x0A]" ?file None None] off
  have 1: "getCommand [CHR 0x0A] ?file None (Some ?f) None = getCommand [CHR 0x0A] ?file None None None"
    by blast
  from find_sin_sigil[of ?d "[CHR 0x0A]" ?file None None ?f ?x] off m
  have 2: "?x \<in> set (fst (getCommand [CHR 0x0A] ?file None (Some ?f) None))"
    by blast
  from 1 2 e t m off show ?thesis by simp
qed

section \<open>Names of the records\<close>

text \<open>
  C5. Every record that \<open>addCommand\<close> puts into the index from a catalog text has its
  \<open>searchName\<close> equal to the lower-case form of its \<open>realName\<close>, whatever the line
  looks like.
\<close>

theorem searchName_lowercase:
  "c \<in> set (snd (addCommand EOL data [])) \<Longrightarrow> searchName c = toLowerCase (realName c)"
  using addCommand_set parseLine_names(1) by blast

text \<open>The theorem at a catalog of two lines, for the record of the second line.\<close>

theorem searchName_lowercase_witness:
  "snd (addCommand [CHR 0x0A] (sinLine @ [CHR 0x0A] @ ''Abs|/mod/a/b'') []) ! 1
     \<in> set (snd (addCommand [CHR 0x0A] (sinLine @ [CHR 0x0A] @ ''Abs|/mod/a/b'') []))
   \<and> realName (snd (addCommand [CHR 0x0A] (sinLine @ [CHR 0x0A] @ ''Abs|/mod/a/b'') []) ! 1) = ''Abs''
   \<and> searchName (snd (addCommand [CHR 0x0A] (sinLine @ [CHR 0x0A] @ ''Abs|/mod/a/b'') []) ! 1) = ''abs''"
proof -
  let ?c = "snd (addCommand [CHR 0x0A] (sinLine @ [CHR 0x0A] @ ''Abs|/mod/a/b'') []) ! 1"
  have mem: "?c \<in> set (snd (addCommand [CHR 0x0A] (sinLine @ [CHR 0x0A] @ ''Abs|/mod/a/b'') []))"
    by code_simp
  have rn: "realName ?c = ''Abs''" by code_simp
  have low: "toLowerCase ''Abs'' = ''abs''" by code_simp
  from searchName_lowercase[OF mem] rn low have "searchName ?c = ''abs''" by simp
  with mem rn show ?thesis by simp
qed

text \<open>
  C6, as claimed: \<open>realName\<close> and \<open>searchName\<close> are never empty, and a malformed line
  keeps the initial values \<open>No Name\<close> and \<open>no name\<close>. The line \<open>|/mod/a/b\<close>, with nothing
  before the pipe, refutes it: its record has both names empty.
\<close>

theorem empty_name_counterexample:
  "map realName (snd (addCommand [CHR 0x0A] ''|/mod/a/b'' [])) = ['''']
   \<and> map searchName (snd (addCommand [CHR 0x0A] ''|/mod/a/b'' [])) = ['''']"
  by code_simp

text \<open>
  C6, amended. For every record of a catalog line, \<open>searchName\<close> is the lower-case form
  of \<open>realName\<close>, and \<open>realName\<close> is what three cuts leave of the first pipe-delimited
  segment. The first cut, made when the segment holds space-colon-space, takes the
  description (the text from the first such separator to the next one or to the end)
  and three characters more from the end. The second, made when a \<open>(\<close> is left, keeps
  the text before the first \<open>(\<close>, less its last character when that \<open>(\<close> is the last
  character. The third keeps the text before the first \<open>:\<close>. The two names are both
  not empty exactly when what the first cut leaves is not empty, starts with neither
  \<open>:\<close> nor \<open>(\<close> and is not one character followed by \<open>(\<close>; otherwise both are empty.
  The initial values \<open>No Name\<close> and \<open>no name\<close> are overwritten for every line.
\<close>

theorem realName_is_rest_of_leftSide:
  assumes "parseLine line = Inr c"
  shows "let l0 = hd (split line ''|'');
             d = hd (split (drop (nat (indexOf l0 '' : '') + 3) l0) '' : '');
             l1 = (if includesStr l0 '' : '' then take (length l0 - (length d + 3)) l0 else l0);
             pre = takeWhile (\<lambda>x. x \<noteq> CHR ''('') l1;
             l2 = (if CHR ''('' \<in> set l1
                   then (if pre @ ''('' = l1 then butlast pre else pre)
                   else l1)
         in description c = (if includesStr l0 '' : '' then Some d else None)
          \<and> realName c = takeWhile (\<lambda>x. x \<noteq> CHR '':'') l2
          \<and> searchName c = toLowerCase (realName c)
          \<and> ((realName c \<noteq> [] \<and> searchName c \<noteq> [])
               = (l1 \<noteq> [] \<and> hd l1 \<noteq> CHR '':'' \<and> hd l1 \<noteq> CHR ''('' \<and> l1 \<noteq> [hd l1, CHR ''('']))
          \<and> ((realName c = [] \<and> searchName c = [])
               = (\<not> (l1 \<noteq> [] \<and> hd l1 \<noteq> CHR '':'' \<and> hd l1 \<noteq> CHR ''('' \<and> l1 \<noteq> [hd l1, CHR ''(''])))"
proof -
  from assms obtain c1 c2 l1 c3 l2 c4 l3 where
    s1: "trackModule (figureUrl (last (split line ''|'')) newCommand) = Inr c1" and
    s2: "takeDescription (c1, hd (split line ''|'')) = Inr (c2, l1)" and
    s3: "figureFunction (c2, l1) = Inr (c3, l2)" and
    s4: "takeReturns (c3, l2) = (c4, l3)" and
    c: "c = makeMarkdown (takeName (c4, l3))"
    by (rule parseLine_stages)
  let ?l0 = "hd (split line ''|'')"
  let ?d = "hd (split (drop (nat (indexOf ?l0 '' : '') + 3) ?l0) '' : '')"
  have d1: "description c1 = None"
    using description_kept(2)[OF s1] by (simp add: description_kept(1) newCommand_def)
  have dc: "description c = description c2"
    using description_kept(3)[OF s3] description_kept(4)[OF s4] c
    by (simp add: description_kept(5,6))
  from takeDescription_exact[OF s2] d1 have
    l1: "l1 = (if includesStr ?l0 '' : '' then take (length ?l0 - (length ?d + 3)) ?l0 else ?l0)"
    and de: "description c2 = (if includesStr ?l0 '' : '' then Some ?d else None)"
    by (auto split: if_splits)
  note l2 = figureFunction_exact[OF s3]
  note l3 = takeReturns_exact[OF s4]
  from c have rn: "realName c = l3" and sn: "searchName c = toLowerCase (realName c)" by simp_all
  have e: "(searchName c = []) = (realName c = [])" by (simp add: sn toLowerCase_def)
  have ne: "(realName c \<noteq> [])
      = (l1 \<noteq> [] \<and> hd l1 \<noteq> CHR '':'' \<and> hd l1 \<noteq> CHR ''('' \<and> l1 \<noteq> [hd l1, CHR ''(''])"
    unfolding rn l3 l2 by (rule rest_nonempty_iff)
  have r: "realName c = takeWhile (\<lambda>x. x \<noteq> CHR '':'')
      (if CHR ''('' \<in> set l1
       then (if takeWhile (\<lambda>x. x \<noteq> CHR ''('') l1 @ ''('' = l1
             then butlast (takeWhile (\<lambda>x. x \<noteq> CHR ''('') l1)
             else takeWhile (\<lambda>x. x \<noteq> CHR ''('') l1)
       else l1)"
    unfolding rn l3 l2 ..
  from ne e have both: "(realName c \<noteq> [] \<and> searchName c \<noteq> [])
      = (l1 \<noteq> [] \<and> hd l1 \<noteq> CHR '':'' \<and> hd l1 \<noteq> CHR ''('' \<and> l1 \<noteq> [hd l1, CHR ''(''])"
    "(realName c = [] \<and> searchName c = [])
      = (\<not> (l1 \<noteq> [] \<and> hd l1 \<noteq> CHR '':'' \<and> hd l1 \<noteq> CHR ''('' \<and> l1 \<noteq> [hd l1, CHR ''('']))"
    by auto
  from dc de have dd: "description c = (if includesStr ?l0 '' : '' then Some ?d else None)"
    by simp
  have "description c = (if includesStr ?l0 '' : '' then Some ?d else None)
          \<and> realName c = takeWhile (\<lambda>x. x \<noteq> CHR '':'')
                (if CHR ''('' \<in> set l1
                 then (if takeWhile (\<lambda>x. x \<noteq> CHR ''('') l1 @ ''('' = l1
                       then butlast (takeWhile (\<lambda>x. x \<noteq> CHR ''('') l1)
                       else takeWhile (\<lambda>x. x \<noteq> CHR ''('') l1)
                 else l1)
          \<and> searchName c = toLowerCase (realName c)
          \<and> ((realName c \<noteq> [] \<and> searchName c \<noteq> [])
               = (l1 \<noteq> [] \<and> hd l1 \<noteq> CHR '':'' \<and> hd l1 \<noteq> CHR ''('' \<and> l1 \<noteq> [hd l1, CHR ''('']))
          \<and> ((realName c = [] \<and> searchName c = [])
               = (\<not> (l1 \<noteq> [] \<and> hd l1 \<noteq> CHR '':'' \<and> hd l1 \<noteq> CHR ''('' \<and> l1 \<noteq> [hd l1, CHR ''(''])))"
    using dd r sn both by (intro conjI)
  then show ?thesis unfolding Let_def l1 .
qed

text \<open>The theorem at a line with return type, parameter list and description.\<close>

theorem realName_is_rest_of_leftSide_witness:
  "parseLine ''Abs:Int( x ) : absolute value|/mod/a/b''
     = Inr (projr (parseLine ''Abs:Int( x ) : absolute value|/mod/a/b''))
   \<and> description (projr (parseLine ''Abs:Int( x ) : absolute value|/mod/a/b'')) = Some ''absolute value''
   \<and> realName (projr (parseLine ''Abs:Int( x ) : absolute value|/mod/a/b'')) = ''Abs''
   \<and> searchName (projr (parseLine ''Abs:Int( x ) : absolute value|/mod/a/b'')) = ''abs''"
proof -
  let ?c = "projr (parseLine ''Abs:Int( x ) : absolute value|/mod/a/b'')"
  have p: "parseLine ''Abs:Int( x ) : absolute value|/mod/a/b'' = Inr ?c" by code_simp
  have l0: "hd (split ''Abs:Int( x ) : absolute value|/mod/a/b'' ''|'') = ''Abs:Int( x ) : absolute value''"
    by code_simp
  have i: "includesStr ''Abs:Int( x ) : absolute value'' '' : ''" by code_simp
  have d: "hd (split (drop (nat (indexOf ''Abs:Int( x ) : absolute value'' '' : '') + 3)
      ''Abs:Int( x ) : absolute value'') '' : '') = ''absolute value''"
    by code_simp
  have low: "toLowerCase ''Abs'' = ''abs''" by code_simp
  note t = realName_is_rest_of_leftSide[OF p, unfolded Let_def l0 d]
  from t i have "description ?c = Some ''absolute value''" by simp
  moreover from t i have "realName ?c = ''Abs''" by simp
  moreover from t have "searchName ?c = toLowerCase (realName ?c)" by blast
  ultimately show ?thesis using p low by simp
qed

section \<open>The parameter sub-parser on the quoted-comma example\<close>

text \<open>
  C7. On the raw text \<open>a:Int, b:String = "hi, there"\<close> the sub-parser gives exactly two
  parameters, \<open>a\<close> of type \<open>Int\<close> without default and \<open>b\<close> of type \<open>String\<close> with
  default \<open>"hi, there"\<close>, quotes included: the comma inside the quotes does not start a
  third parameter. The raw text is kept and the rendering is the same text.
\<close>

theorem quoted_comma_two_params:
  "parseCommandParams
     (newCommand\<lparr>paramsRaw := Some (''a:Int, b:String = '' @ [CHR 0x22] @ ''hi, there'' @ [CHR 0x22])\<rparr>)
   = Inr (newCommand
       \<lparr>params := Some [\<lparr>name = ''a'', type = ''Int'', default = ''''\<rparr>,
                         \<lparr>name = ''b'', type = ''String'',
                          default = [CHR 0x22] @ ''hi, there'' @ [CHR 0x22]\<rparr>],
        paramsRaw := Some (''a:Int, b:String = '' @ [CHR 0x22] @ ''hi, there'' @ [CHR 0x22]),
        paramsPretty := Some (''a:Int, b:String = '' @ [CHR 0x22] @ ''hi, there'' @ [CHR 0x22])\<rparr>)"
  by code_simp

section \<open>Rendering and parsing again\<close>

text \<open>
  C8. For every record of a catalog line whose parameters were parsed, the sub-parser
  run on the rendered \<open>paramsPretty\<close> succeeds and gives a parameter list of the same
  length that agrees with the first one at every position in name, type and default,
  up to white space: all parameters but the last are the same, the last has the same
  name, and its type and default are the same but for white space at their end (which
  \<open>trim\<close> removes from the end of the rendering before it is parsed). When the
  rendering does not end with white space, the two lists are equal.
\<close>

theorem params_roundtrip:
  assumes "parseLine line = Inr c" and "params c = Some ps"
  shows "\<exists>pp c' ps'. paramsPretty c = Some pp
     \<and> parseCommandParams (c\<lparr>paramsRaw := Some pp\<rparr>) = Inr c'
     \<and> params c' = Some ps'
     \<and> length ps' = length ps
     \<and> butlast ps' = butlast ps
     \<and> name (last ps') = name (last ps)
     \<and> sameButTrailingSpace (type (last ps')) (type (last ps))
     \<and> sameButTrailingSpace (default (last ps')) (default (last ps))
     \<and> (\<not> isWhiteSpace (last pp) \<longrightarrow> ps' = ps)"
proof -
  from parsed_params_of_line[OF assms] obtain raw where
    raw: "raw \<noteq> []" "\<not> isWhiteSpace (hd raw)" "ps = params_of (foldl loopRound startState raw)"
    and pp: "paramsPretty c = Some (pretty ps)" by blast
  define ps' where "ps' = params_of (foldl loopRound startState (trim (pretty ps)))"
  note rc = roundtrip_core[OF raw ps'_def]
  from rc have pn: "pretty ps \<noteq> []" by (auto simp: trim_def)
  have re: "parseCommandParams (c\<lparr>paramsRaw := Some (pretty ps)\<rparr>) =
      Inr (c\<lparr>paramsRaw := Some (trim (pretty ps)), params := Some ps',
             paramsPretty := Some (pretty ps')\<rparr>)"
    using rc pn by (simp add: parseCommandParams_eq ps'_def)
  from rc have "length (butlast ps') = length (butlast ps)" by simp
  with rc have len: "length ps' = length ps"
    by (metis append_butlast_last_id length_append_singleton)
  from pp re len rc show ?thesis by auto
qed

text \<open>The theorem at \<open>quotedLine\<close>: the parameters parsed from the rendering are the
  parameters of the record.\<close>

theorem params_roundtrip_witness:
  "parseLine quotedLine = Inr (projr (parseLine quotedLine))
   \<and> params (projr (parseLine quotedLine)) =
       Some [\<lparr>name = ''a'', type = ''Int'', default = ''''\<rparr>,
             \<lparr>name = ''b'', type = ''String'', default = [CHR 0x22] @ ''hi, there'' @ [CHR 0x22]\<rparr>]
   \<and> paramsPretty (projr (parseLine quotedLine)) =
       Some (''a:Int, b:String = '' @ [CHR 0x22] @ ''hi, there'' @ [CHR 0x22])
   \<and> \<not> isWhiteSpace (last (''a:Int, b:String = '' @ [CHR 0x22] @ ''hi, there'' @ [CHR 0x22]))
   \<and> map_sum id params
        (parseCommandParams ((projr (parseLine quotedLine))
           \<lparr>paramsRaw := Some (''a:Int, b:String = '' @ [CHR 0x22] @ ''hi, there'' @ [CHR 0x22])\<rparr>)) =
       Inr (Some [\<lparr>name = ''a'', type = ''Int'', default = ''''\<rparr>,
             \<lparr>name = ''b'', type = ''String'', default = [CHR 0x22] @ ''hi, there'' @ [CHR 0x22]\<rparr>])"
proof -
  let ?c = "projr (parseLine quotedLine)"
  let ?ps = "[\<lparr>name = ''a'', type = ''Int'', default = ''''\<rparr>,
             \<lparr>name = ''b'', type = ''String'', default = [CHR 0x22] @ ''hi, there'' @ [CHR 0x22]\<rparr>]"
  let ?pp = "''a:Int, b:String = '' @ [CHR 0x22] @ ''hi, there'' @ [CHR 0x22]"
  have h1: "parseLine quotedLine = Inr ?c" by code_simp
  have h2: "params ?c = Some ?ps" by code_simp
  have h3: "paramsPretty ?c = Some ?pp" by code_simp
  have h4: "\<not> isWhiteSpace (last ?pp)" by code_simp
  from params_roundtrip[OF h1 h2] obtain pp c' ps' where
    r: "paramsPretty ?c = Some pp" "parseCommandParams (?c\<lparr>paramsRaw := Some pp\<rparr>) = Inr c'"
       "params c' = Some ps'" "\<not> isWhiteSpace (last pp) \<longrightarrow> ps' = ?ps"
    by blast
  from r(1) h3 have pp: "pp = ?pp" by simp
  with r(4) h4 have "ps' = ?ps" by blast
  with r(2,3) pp have "map_sum id params (parseCommandParams (?c\<lparr>paramsRaw := Some ?pp\<rparr>)) = Inr (Some ?ps)"
    by simp
  with h1 h2 h3 h4 show ?thesis by blast
qed

text \<open>White space at the end of the last type is what the second parse can lose: on
  \<open>tabLine\<close> the type \<open>b\<close> followed by a tab comes back as \<open>b\<close>.\<close>

lemma roundtrip_trailing_tab:
  "map_option (map type) (params (projr (parseLine tabLine))) = Some [''b'' @ [CHR 0x09]]
   \<and> paramsPretty (projr (parseLine tabLine)) = Some (''a:b'' @ [CHR 0x09])
   \<and> map_sum id (map_option (map type) \<circ> params)
        (parseCommandParams ((projr (parseLine tabLine))\<lparr>paramsRaw := Some (''a:b'' @ [CHR 0x09])\<rparr>))
      = Inr (Some [''b''])"
  by code_simp

text \<open>The same with a no-break space, which \<open>trim\<close> removes as it removes a tab.\<close>

lemma roundtrip_trailing_no_break_space:
  "map_option (map type) (params (projr (parseLine noBreakLine))) = Some [''b'' @ [CHR 0xA0]]
   \<and> paramsPretty (projr (parseLine noBreakLine)) = Some (''a:b'' @ [CHR 0xA0])
   \<and> isWhiteSpace (last (''a:b'' @ [CHR 0xA0]))
   \<and> map_sum id (map_option (map type) \<circ> params)
        (parseCommandParams ((projr (parseLine noBreakLine))\<lparr>paramsRaw := Some (''a:b'' @ [CHR 0xA0])\<rparr>))
      = Inr (Some [''b''])"
  by code_simp

section \<open>The parameter text of a line\<close>

text \<open>
  C9, as claimed: whenever what is left of \<open>leftSide\<close> holds a \<open>(\<close>, \<open>paramsRaw\<close> is the
  text between the first \<open>(\<close> and the final \<open>)\<close>, also when text follows the final
  \<open>)\<close>. The line \<open>Foo(a):Int|/mod/a/b\<close> refutes it: the code cuts the last character
  only, so \<open>paramsRaw\<close> is \<open>a):In\<close> where the claim has \<open>a\<close>, and no return type is
  found.
\<close>

theorem trailing_text_counterexample:
  "map paramsRaw (snd (addCommand [CHR 0x0A] ''Foo(a):Int|/mod/a/b'' [])) = [Some ''a):In'']
   \<and> map realName (snd (addCommand [CHR 0x0A] ''Foo(a):Int|/mod/a/b'' [])) = [''Foo'']
   \<and> map returns (snd (addCommand [CHR 0x0A] ''Foo(a):Int|/mod/a/b'' [])) = [None]
   \<and> spec_paramsRaw ''Foo(a):Int'' = ''a''"
  by code_simp

text \<open>
  C9, amended. When what is left of \<open>leftSide\<close> holds a \<open>(\<close> and ends with \<open>)\<close>,
  \<open>figureFunction\<close> succeeds, \<open>leftSide\<close> is the text before the first \<open>(\<close>, then \<open>(\<close>,
  the text between the first \<open>(\<close> and the final \<open>)\<close>, then \<open>)\<close>; the record keeps
  that text with the white space at its ends trimmed as \<open>paramsRaw\<close>, and \<open>leftSide\<close> is
  cut back to the text before the first \<open>(\<close>.
\<close>

theorem figureFunction_closing_paren:
  assumes "CHR ''('' \<in> set leftSide" and "last leftSide = CHR '')''"
  shows "\<exists>command1 leftSide1.
     figureFunction (command, leftSide) = Inr (command1, leftSide1)
     \<and> paramsRaw command1 = Some (trim (spec_paramsRaw leftSide))
     \<and> leftSide = leftSide1 @ ''('' @ spec_paramsRaw leftSide @ '')''
     \<and> CHR ''('' \<notin> set leftSide1
     \<and> isFunction command1"
proof -
  define pre where "pre = takeWhile (\<lambda>x. x \<noteq> CHR ''('') leftSide"
  define t where "t = tl (dropWhile (\<lambda>x. x \<noteq> CHR ''('') leftSide)"
  have l: "leftSide = pre @ ''('' @ t"
    unfolding pre_def t_def by (rule first_paren_decomp[OF assms(1)])
  have pre: "CHR ''('' \<notin> set pre"
    unfolding pre_def using set_takeWhileD by fastforce
  have t: "t \<noteq> []" using assms(2) l by (cases t) auto
  with assms(2) l have lt: "last t = CHR '')''" by simp
  with t have tb: "t = butlast t @ '')''" by (metis append_butlast_last_id)
  have r: "rev t = CHR '')'' # rev (butlast t)" by (subst tb) simp
  have "spec_paramsRaw leftSide = rev (tl (dropWhile (\<lambda>x. x \<noteq> CHR '')'') (rev t)))"
    unfolding spec_paramsRaw_def t_def ..
  also have "\<dots> = rev (tl (dropWhile (\<lambda>x. x \<noteq> CHR '')'') (CHR '')'' # rev (butlast t))))"
    by (simp only: r)
  also have "\<dots> = butlast t" by simp
  finally have sp: "spec_paramsRaw leftSide = butlast t" .
  obtain c where c: "parseCommandParams (command\<lparr>paramsRaw := Some (butlast t)\<rparr>) = Inr c"
    by (simp add: parseCommandParams_eq)
  have "figureFunction (command, leftSide) = Inr (c\<lparr>isFunction := True\<rparr>, pre)"
    using figureFunction_decomp[OF pre t, of command] c l by simp
  moreover have "paramsRaw (c\<lparr>isFunction := True\<rparr>) = Some (trim (spec_paramsRaw leftSide))"
    using parseCommandParams_raw[OF c] sp by simp
  moreover have isf: "isFunction (c\<lparr>isFunction := True\<rparr>)" by simp
  moreover have "leftSide = pre @ ''('' @ spec_paramsRaw leftSide @ '')''"
    using l tb sp by simp
  ultimately show ?thesis using pre isf by blast
qed

theorem figureFunction_closing_paren_witness:
  "CHR ''('' \<in> set ''Foo:Int( a, b$ )'' \<and> last ''Foo:Int( a, b$ )'' = CHR '')''
   \<and> paramsRaw (fst (projr (figureFunction (newCommand, ''Foo:Int( a, b$ )'')))) = Some ''a, b$''
   \<and> snd (projr (figureFunction (newCommand, ''Foo:Int( a, b$ )''))) = ''Foo:Int''"
proof -
  have h1: "CHR ''('' \<in> set ''Foo:Int( a, b$ )''" by simp
  have h2: "last ''Foo:Int( a, b$ )'' = CHR '')''" by simp
  have s: "spec_paramsRaw ''Foo:Int( a, b$ )'' = '' a, b$ ''" by code_simp
  have t: "trim '' a, b$ '' = ''a, b$''" by code_simp
  from figureFunction_closing_paren[OF h1 h2, of newCommand] obtain c1 l1 where
    r: "figureFunction (newCommand, ''Foo:Int( a, b$ )'') = Inr (c1, l1)"
      "paramsRaw c1 = Some (trim (spec_paramsRaw ''Foo:Int( a, b$ )''))"
      "''Foo:Int( a, b$ )'' = l1 @ ''('' @ spec_paramsRaw ''Foo:Int( a, b$ )'' @ '')''"
    by blast
  from r(3) have "l1 @ ''( a, b$ )'' = ''Foo:Int'' @ ''( a, b$ )''" by (simp add: s)
  then have "l1 = ''Foo:Int''" by (simp only: append_same_eq)
  with r(1,2) h1 h2 show ?thesis by (simp add: s t)
qed

section \<open>An empty parameter list\<close>

text \<open>
  C10, as claimed: every line whose parameter list is empty or white space only gives a
  record with \<open>isFunction\<close> true and no \<open>params\<close>, which a search with \<open>hasParameters\<close>
  leaves out. When text follows the closing parenthesis, be it the blank before a
  pipe or a return type, the code cuts the last character only: the lines
  \<open>Foo() | ... | /mod/a/b\<close> and \<open>Foo():Int|/mod/a/b\<close> each get one parameter named \<open>)\<close>,
  and the search with \<open>hasParameters\<close> returns the record of the first.
\<close>

theorem text_after_empty_parens_counterexample:
  "map (map_option (map name)) (map params (snd (addCommand [CHR 0x0A] ''Foo() | ... | /mod/a/b'' [])))
     = [Some ['')'']]
   \<and> map realName (fst (getCommand [CHR 0x0A] (Some ''Foo() | ... | /mod/a/b'') None
         (Some \<lparr>hasDescription = None, hasMarkdown = None, hasParameters = Some True\<rparr>) None))
     = [''Foo'']
   \<and> map (map_option (map name)) (map params (snd (addCommand [CHR 0x0A] ''Foo():Int|/mod/a/b'' [])))
     = [Some ['')'']]"
  by code_simp

text \<open>
  C10, amended. A line whose first pipe-delimited segment, once its description is
  cut, is a name \<open>nm\<close> without \<open>(\<close> followed by a pair of parentheses that holds
  nothing or white space only, and ends with the closing parenthesis (\<open>Foo()\<close>,
  \<open>Foo( )\<close>), gives a record with \<open>isFunction\<close> true whose \<open>params\<close> and \<open>paramsPretty\<close>
  are absent, and no search with the filter flag \<open>hasParameters\<close> set returns it.
\<close>

theorem empty_parameter_list:
  assumes "parseLine line = Inr c"
    and "takeDescription (command0, hd (split line ''|'')) = Inr (command1, nm @ ''('' @ w @ '')'')"
    and "CHR ''('' \<notin> set nm"
    and "\<forall>ch\<in>set w. isWhiteSpace ch"
  shows "isFunction c \<and> params c = None \<and> paramsPretty c = None
     \<and> (flag (hasParameters f)
          \<longrightarrow> c \<notin> set (fst (getCommand EOL file command (Some f) commandsList)))"
proof -
  from assms(1) obtain c1 c2 l2 c3 l3 c4 l4 where
    s1: "trackModule (figureUrl (last (split line ''|'')) newCommand) = Inr c1" and
    s2: "takeDescription (c1, hd (split line ''|'')) = Inr (c2, l2)" and
    s3: "figureFunction (c2, l2) = Inr (c3, l3)" and
    s4: "takeReturns (c3, l3) = (c4, l4)" and
    c: "c = makeMarkdown (takeName (c4, l4))"
    by (rule parseLine_stages)
  have "params c1 = None \<and> paramsPretty c1 = None"
    using trackModule_fields[OF s1] figureUrl_fields[of "last (split line ''|'')" newCommand]
    by (simp add: newCommand_def)
  with takeDescription_fields[OF s2] have c2: "params c2 = None \<and> paramsPretty c2 = None"
    by simp
  from s2 assms(2) have l2: "l2 = nm @ ''('' @ (w @ '')'')"
    by (auto simp: takeDescription.simps split: if_splits option.splits)
  have "trim w = []" by (rule all_ws_trim[OF assms(4)])
  then have "parseCommandParams (c2\<lparr>paramsRaw := Some w\<rparr>) =
      Inr (if w = [] then c2\<lparr>paramsRaw := Some w\<rparr> else c2\<lparr>paramsRaw := Some []\<rparr>)"
    by (simp add: parseCommandParams_eq)
  with s3 l2 have "c3 = (if w = [] then c2\<lparr>paramsRaw := Some w\<rparr> else c2\<lparr>paramsRaw := Some []\<rparr>)\<lparr>isFunction := True\<rparr>"
    using figureFunction_decomp[OF assms(3), of "w @ '')''" c2] by simp
  with c2 have "isFunction c3 \<and> params c3 = None \<and> paramsPretty c3 = None" by simp
  with takeReturns_fields[OF s4] c have r: "isFunction c \<and> params c = None \<and> paramsPretty c = None"
    by simp
  then have "filteredOut (Some f) c" if "flag (hasParameters f)"
    using that by (simp add: filteredOut_def)
  with r getCommand_kept[of c EOL "file" command "Some f" commandsList] show ?thesis by blast
qed

text \<open>The theorem at the line \<open>Foo( ) : does nothing|/mod/a/b\<close>: a search without filter
  returns its record, a search with \<open>hasParameters\<close> does not.\<close>

theorem empty_parameter_list_witness:
  "parseLine ''Foo( ) : does nothing|/mod/a/b'' = Inr (projr (parseLine ''Foo( ) : does nothing|/mod/a/b''))
   \<and> takeDescription (newCommand, hd (split ''Foo( ) : does nothing|/mod/a/b'' ''|''))
       = Inr (newCommand\<lparr>description := Some ''does nothing''\<rparr>, ''Foo'' @ ''('' @ '' '' @ '')'')
   \<and> CHR ''('' \<notin> set ''Foo''
   \<and> isWhiteSpace CHR '' ''
   \<and> flag (hasParameters \<lparr>hasDescription = None, hasMarkdown = None, hasParameters = Some True\<rparr>)
   \<and> isFunction (projr (parseLine ''Foo( ) : does nothing|/mod/a/b''))
   \<and> params (projr (parseLine ''Foo( ) : does nothing|/mod/a/b'')) = None
   \<and> paramsPretty (projr (parseLine ''Foo( ) : does nothing|/mod/a/b'')) = None
   \<and> projr (parseLine ''Foo( ) : does nothing|/mod/a/b'')
       \<in> set (fst (getCommand [CHR 0x0A] (Some ''Foo( ) : does nothing|/mod/a/b'') None None None))
   \<and> projr (parseLine ''Foo( ) : does nothing|/mod/a/b'')
       \<notin> set (fst (getCommand [CHR 0x0A] (Some ''Foo( ) : does nothing|/mod/a/b'') None
            (Some \<lparr>hasDescription = None, hasMarkdown = None, hasParameters = Some True\<rparr>) None))"
proof -
  have h1: "parseLine ''Foo( ) : does nothing|/mod/a/b'' = Inr (projr (parseLine ''Foo( ) : does nothing|/mod/a/b''))"
    by code_simp
  have h2: "takeDescription (newCommand, hd (split ''Foo( ) : does nothing|/mod/a/b'' ''|''))
       = Inr (newCommand\<lparr>description := Some ''does nothing''\<rparr>, ''Foo'' @ ''('' @ '' '' @ '')'')"
    by code_simp
  have h3: "CHR ''('' \<notin> set ''Foo''" by simp
  have h4: "\<forall>ch\<in>set '' ''. isWhiteSpace ch" by (simp add: isWhiteSpace_def)
  have h6: "flag (hasParameters \<lparr>hasDescription = None, hasMarkdown = None, hasParameters = Some True\<rparr>)"
    by (simp add: flag_def)
  have h7: "projr (parseLine ''Foo( ) : does nothing|/mod/a/b'')
       \<in> set (fst (getCommand [CHR 0x0A] (Some ''Foo( ) : does nothing|/mod/a/b'') None None None))"
    by code_simp
  from empty_parameter_list[OF h1 h2 h3 h4,
      of "\<lparr>hasDescription = None, hasMarkdown = None, hasParameters = Some True\<rparr>"
         "[CHR 0x0A]" "Some ''Foo( ) : does nothing|/mod/a/b''" None None] h6
  show ?thesis using h1 h2 h3 h4 h7 by simp
qed

text \<open>The two lines of the claim, evaluated.\<close>

lemma empty_parens_evaluated:
  "map isFunction (snd (addCommand [CHR 0x0A] (''Foo()|/mod/a/b'' @ [CHR 0x0A] @ ''Foo( )|/mod/a/b'') [])) = [True, True]
  \<and> map params (snd (addCommand [CHR 0x0A] (''Foo()|/mod/a/b'' @ [CHR 0x0A] @ ''Foo( )|/mod/a/b'') [])) = [None, None]
  \<and> map paramsPretty (snd (addCommand [CHR 0x0A] (''Foo()|/mod/a/b'' @ [CHR 0x0A] @ ''Foo( )|/mod/a/b'') [])) = [None, None]
  \<and> fst (getCommand [CHR 0x0A] (Some (''Foo()|/mod/a/b'' @ [CHR 0x0A] @ ''Foo( )|/mod/a/b'')) None
        (Some \<lparr>hasDescription = None, hasMarkdown = None, hasParameters = Some True\<rparr>) None) = []"
  by code_simp

text \<open>A no-break space between the parentheses is white space as well.\<close>

lemma no_break_space_parens_evaluated:
  "map isFunction (snd (addCommand [CHR 0x0A] (''Foo('' @ [CHR 0xA0] @ '')|/mod/a/b'') [])) = [True]
  \<and> map params (snd (addCommand [CHR 0x0A] (''Foo('' @ [CHR 0xA0] @ '')|/mod/a/b'') [])) = [None]"
  by code_simp

end
